theory Spec2Isabelle
  imports Complex_Main "HOL-Library.Sublist" "HOL-Library.Char_ord" "HOL-Library.List_Lexorder"
begin

section \<open>Python values\<close>

text \<open>
  The two scripts work on dictionaries whose values are dynamically typed: the
  \<^verbatim>\<open>info\<close> dictionary of a process (strings, numbers, a list of strings, or
  \<^verbatim>\<open>None\<close>) and the rows of a CSV reader.  A Python number is modelled by the
  real number it denotes: every \<^verbatim>\<open>int\<close> and every finite \<^verbatim>\<open>float\<close> is a
  (rational) real, and comparing two of them in Python compares these reals exactly.
  Infinities and NaN are outside the model.  A string is a list of characters; a
  dictionary with string keys is a map.
\<close>

datatype pyval = PNone | PNum real | PStr string | PList "string list"

datatype error = KeyError | IndexError | TypeError | AttributeError | ValueError
  | FileNotFoundError | OtherException

type_synonym 'a result = "error + 'a"

type_synonym pydict = "string \<rightharpoonup> pyval"

text \<open>Sequencing of computations that may raise: the first exception wins.\<close>

definition bind_result :: "'a result \<Rightarrow> ('a \<Rightarrow> 'b result) \<Rightarrow> 'b result" where
  "bind_result m f = (case m of Inl e \<Rightarrow> Inl e | Inr x \<Rightarrow> f x)"

text \<open>\<^verbatim>\<open>d[k]\<close> raises \<^verbatim>\<open>KeyError\<close> on a missing key; \<^verbatim>\<open>d.get(k, default)\<close> does not.\<close>

definition subscript :: "pydict \<Rightarrow> string \<Rightarrow> pyval result" where
  "subscript d k = (case d k of None \<Rightarrow> Inl KeyError | Some v \<Rightarrow> Inr v)"

definition dict_get :: "pydict \<Rightarrow> string \<Rightarrow> pyval \<Rightarrow> pyval" where
  "dict_get d k dflt = (case d k of None \<Rightarrow> dflt | Some v \<Rightarrow> v)"

text \<open>
  \<^verbatim>\<open>x > c\<close> for a float literal \<^verbatim>\<open>c\<close>: defined on numbers, a \<^verbatim>\<open>TypeError\<close> on
  \<^verbatim>\<open>None\<close>, strings and lists.
\<close>

definition py_gt :: "pyval \<Rightarrow> real \<Rightarrow> bool result" where
  "py_gt v c = (case v of PNum r \<Rightarrow> Inr (c < r) | _ \<Rightarrow> Inl TypeError)"

text \<open>
  The literal \<^verbatim>\<open>0.1\<close> is the double nearest to one tenth,
  \<^verbatim>\<open>0x1.999999999999ap-4\<close>, slightly above it.
\<close>

definition float_0_1 :: real where
  "float_0_1 = 3602879701896397 / 36028797018963968"

subsection \<open>Strings\<close>

text \<open>
  \<^verbatim>\<open>s.lower()\<close> on the ASCII letters; other characters are kept.  (The only
  characters outside ASCII that Python lowers to an ASCII letter are the Kelvin sign and
  the dotted capital I, and neither produces one of the keywords matched below.)
  \<^verbatim>\<open>sub in s\<close> on strings is the substring test.
\<close>

definition lower_char :: "char \<Rightarrow> char" where
  "lower_char c =
     (case map_of (zip ''ABCDEFGHIJKLMNOPQRSTUVWXYZ'' ''abcdefghijklmnopqrstuvwxyz'') c of
        None \<Rightarrow> c | Some l \<Rightarrow> l)"

definition lower :: "string \<Rightarrow> string" where
  "lower s = map lower_char s"

definition str_in :: "string \<Rightarrow> string \<Rightarrow> bool" where
  "str_in sub s = sublist sub s"

text \<open>
  Truth value of an object, iteration over it (a string iterates over its characters,
  \<^verbatim>\<open>None\<close> and numbers are not iterable), its first element, and the
  \<^verbatim>\<open>lower\<close> method, which only strings have.
\<close>

definition truthy :: "pyval \<Rightarrow> bool" where
  "truthy v = (case v of PNone \<Rightarrow> False | PNum r \<Rightarrow> r \<noteq> 0
                 | PStr s \<Rightarrow> s \<noteq> [] | PList xs \<Rightarrow> xs \<noteq> [])"

definition iterate :: "pyval \<Rightarrow> string list result" where
  "iterate v = (case v of PList xs \<Rightarrow> Inr xs | PStr s \<Rightarrow> Inr (map (\<lambda>c. [c]) s)
                  | _ \<Rightarrow> Inl TypeError)"

definition first_item :: "pyval \<Rightarrow> string result" where
  "first_item v =
     (case v of PList xs \<Rightarrow> (case xs of [] \<Rightarrow> Inl IndexError | x # _ \<Rightarrow> Inr x)
        | PStr s \<Rightarrow> (case s of [] \<Rightarrow> Inl IndexError | c # _ \<Rightarrow> Inr [c])
        | _ \<Rightarrow> Inl TypeError)"

definition py_lower :: "pyval \<Rightarrow> string result" where
  "py_lower v = (case v of PStr s \<Rightarrow> Inr (lower s) | _ \<Rightarrow> Inl AttributeError)"

section \<open>The process sampler (monitor_performance.py)\<close>

subsection \<open>should_show_process\<close>

definition suppressed_statuses :: "pyval list" where
  "suppressed_statuses = [PStr ''stopped'', PStr ''dead'', PStr ''zombie'']"

definition should_show_process :: "pydict \<Rightarrow> bool result" where
  "should_show_process proc_info =
     (let status = dict_get proc_info ''status'' (PStr '''');
          cpu = dict_get proc_info ''cpu_percent'' (PNum 0);
          mem = dict_get proc_info ''memory_percent'' (PNum 0)
      in if status \<notin> set suppressed_statuses then Inr True
         else bind_result (py_gt cpu float_0_1) (\<lambda>c.
                if c then Inr True else py_gt mem float_0_1))"

subsection \<open>get_rig_processes\<close>

text \<open>
  A process as \<^verbatim>\<open>psutil.process_iter\<close> yields it: its pid and the dictionary
  \<^verbatim>\<open>proc.info\<close> of the attributes asked for.
\<close>

record process =
  pid :: int
  info :: pydict

definition rig_path :: string where
  "rig_path = ''/root/RIGnew''"

text \<open>\<^verbatim>\<open>cmdline and any(P(cmd) for cmd in cmdline)\<close>, as a truth value.\<close>

definition cmdline_any :: "(string \<Rightarrow> bool) \<Rightarrow> pyval \<Rightarrow> bool result" where
  "cmdline_any P cmdline =
     (if truthy cmdline then bind_result (iterate cmdline) (\<lambda>cmds. Inr (list_ex P cmds))
      else Inr False)"

text \<open>
  The first \<^verbatim>\<open>any((...))\<close>: the tuple is built before \<^verbatim>\<open>any\<close> runs, so all
  eight tests are evaluated, in order.
\<close>

definition matches_rig :: "string \<Rightarrow> pyval \<Rightarrow> bool result" where
  "matches_rig name cmdline =
     bind_result (cmdline_any (str_in rig_path) cmdline) (\<lambda>c1.
     bind_result (cmdline_any (\<lambda>cmd. str_in ''crypto-agents'' (lower cmd)) cmdline) (\<lambda>c6.
     bind_result (cmdline_any (\<lambda>cmd. str_in ''monitor'' (lower cmd)) cmdline) (\<lambda>c7.
     bind_result (cmdline_any (\<lambda>cmd. str_in ''.rs'' (lower cmd)) cmdline) (\<lambda>c8.
       Inr (c1 \<or> str_in ''python'' name \<or> str_in ''rig'' (lower name)
            \<or> str_in ''rust'' (lower name) \<or> str_in ''cargo'' (lower name)
            \<or> c6 \<or> c7 \<or> c8)))))"

text \<open>The second \<^verbatim>\<open>any((...))\<close>, on the lowered first argument.\<close>

definition matches_executable :: "string \<Rightarrow> bool" where
  "matches_executable executable =
     (str_in ''target/release'' executable \<or> str_in ''target/debug'' executable
      \<or> str_in ''crypto-agents'' executable)"

text \<open>\<^verbatim>\<open>if should_show_process(proc.info): rig_processes.append(proc)\<close>\<close>

definition append_if_shown :: "process \<Rightarrow> process list \<Rightarrow> process list result" where
  "append_if_shown proc rig_processes =
     bind_result (should_show_process (info proc)) (\<lambda>s.
       Inr (if s then rig_processes @ [proc] else rig_processes))"

text \<open>
  The body of the loop over the processes, from the list collected so far to the list
  after this process.  None of the exceptions of the model is one of the two that the
  \<^verbatim>\<open>except\<close> clause catches, so an exception leaves the function.
\<close>

definition visit :: "process \<Rightarrow> process list \<Rightarrow> process list result" where
  "visit proc rig_processes =
     bind_result (subscript (info proc) ''cmdline'') (\<lambda>cmdline.
     bind_result (subscript (info proc) ''name'') (\<lambda>n.
     bind_result (py_lower n) (\<lambda>name.
     bind_result (matches_rig name cmdline) (\<lambda>m.
     bind_result (if m then append_if_shown proc rig_processes else Inr rig_processes)
       (\<lambda>rig_processes.
          if truthy cmdline then
            bind_result (first_item cmdline) (\<lambda>a.
              let executable = lower a in
              if matches_executable executable then append_if_shown proc rig_processes
              else Inr rig_processes)
          else Inr rig_processes)))))"

fun collect :: "process list \<Rightarrow> process list \<Rightarrow> process list result" where
  "collect [] rig_processes = Inr rig_processes"
| "collect (proc # procs) rig_processes =
     bind_result (visit proc rig_processes) (collect procs)"

text \<open>The loop that removes duplicates, with its two variables as arguments.\<close>

fun remove_duplicates :: "process list \<Rightarrow> int set \<Rightarrow> process list \<Rightarrow> process list" where
  "remove_duplicates [] seen_pids unique_processes = unique_processes"
| "remove_duplicates (proc # procs) seen_pids unique_processes =
     (if pid proc \<notin> seen_pids
      then remove_duplicates procs (insert (pid proc) seen_pids) (unique_processes @ [proc])
      else remove_duplicates procs seen_pids unique_processes)"

definition get_rig_processes :: "process list \<Rightarrow> process list result" where
  "get_rig_processes procs =
     bind_result (collect procs []) (\<lambda>rig_processes.
       Inr (remove_duplicates rig_processes {} []))"

subsection \<open>Fixed-point formatting\<close>

text \<open>
  \<^verbatim>\<open>f"{x:.2f}"\<close> prints the decimal expansion of the number with the given count
  of decimals, correctly rounded (ties to the even digit), behind a minus sign when the
  number is negative.
\<close>

definition round_half_even :: "real \<Rightarrow> int" where
  "round_half_even q =
     (let f = \<lfloor>q\<rfloor>; d = q - of_int f
      in if d < 1 / 2 then f else if 1 / 2 < d then f + 1
         else if even f then f else f + 1)"

definition digit_char :: "nat \<Rightarrow> char" where
  "digit_char n = (if n < 10 then ''0123456789'' ! n else CHR ''?'')"

fun digits :: "nat \<Rightarrow> string" where
  "digits n = (if n < 10 then [digit_char n] else digits (n div 10) @ [digit_char (n mod 10)])"

declare digits.simps [simp del]

definition zero_pad :: "nat \<Rightarrow> string \<Rightarrow> string" where
  "zero_pad w s = replicate (w - length s) (CHR ''0'') @ s"

definition format_fixed :: "nat \<Rightarrow> real \<Rightarrow> string" where
  "format_fixed d x =
     (let n = nat (round_half_even (\<bar>x\<bar> * 10 ^ d))
      in (if x < 0 then ''-'' else '''') @ digits (n div 10 ^ d) @ ''.''
         @ zero_pad d (digits (n mod 10 ^ d)))"

subsection \<open>format_size\<close>

text \<open>
  The loop over the units, with the units still to try as an argument.  Dividing a
  byte count below \<open>2\<^sup>5\<^sup>3\<close> by 1024 is exact in floating point.
\<close>

fun format_size_loop :: "real \<Rightarrow> string list \<Rightarrow> string" where
  "format_size_loop bytes [] = format_fixed 2 bytes @ ''TB''"
| "format_size_loop bytes (unit # units) =
     (if bytes < 1024 then format_fixed 2 bytes @ unit
      else format_size_loop (bytes / 1024) units)"

definition format_size :: "real \<Rightarrow> string" where
  "format_size bytes = format_size_loop bytes [''B'', ''KB'', ''MB'', ''GB'']"

section \<open>The signal display (monitor_signals.py)\<close>

subsection \<open>The formatters\<close>

text \<open>
  The literal \<^verbatim>\<open>0.01\<close> is the double \<^verbatim>\<open>0x1.47ae147ae147bp-7\<close>, slightly above one
  hundredth; no double lies between the two.
\<close>

definition float_0_01 :: real where
  "float_0_01 = 5764607523034235 / 576460752303423488"

definition format_price :: "real \<Rightarrow> string" where
  "format_price price =
     (if price = 0 then ''No data''
      else if price < float_0_01 then ''$'' @ format_fixed 8 price
      else if price < 1 then ''$'' @ format_fixed 4 price
      else ''$'' @ format_fixed 2 price)"

definition format_percentage :: "real \<Rightarrow> string" where
  "format_percentage percentage =
     (if percentage = 0 then ''N/A''
      else if percentage > 0 then ''+'' @ format_fixed 2 percentage @ ''%''
      else format_fixed 2 percentage @ ''%'')"

subsection \<open>Reading the rows\<close>

text \<open>
  A row of \<^verbatim>\<open>csv.DictReader\<close> maps the field names of the header to the strings of
  the row, and to \<^verbatim>\<open>None\<close> where the row is shorter than the header.  A cell is a
  \<open>string option\<close>, with \<open>None\<close> for Python's \<^verbatim>\<open>None\<close>.
\<close>

type_synonym csv_row = "string \<rightharpoonup> string option"

text \<open>\<^verbatim>\<open>row.get(k, '')\<close>\<close>

definition row_get :: "csv_row \<Rightarrow> string \<Rightarrow> string option" where
  "row_get row k = (case row k of None \<Rightarrow> Some '''' | Some v \<Rightarrow> v)"

text \<open>
  \<^verbatim>\<open>float(row.get(k, 0))\<close>.  The conversion of a string by the built-in \<^verbatim>\<open>float\<close>
  is a parameter of the model, \<open>None\<close> standing for its \<^verbatim>\<open>ValueError\<close>; the
  default \<^verbatim>\<open>0\<close> of a missing column converts to zero, and \<^verbatim>\<open>None\<close> is a
  \<^verbatim>\<open>TypeError\<close>.
\<close>

definition float_field :: "(string \<Rightarrow> real option) \<Rightarrow> csv_row \<Rightarrow> string \<Rightarrow> real result" where
  "float_field float_of_string row k =
     (case row k of
        None \<Rightarrow> Inr 0
      | Some None \<Rightarrow> Inl TypeError
      | Some (Some s) \<Rightarrow>
          (case float_of_string s of None \<Rightarrow> Inl ValueError | Some x \<Rightarrow> Inr x))"

record signal =
  timestamp :: "string option"
  name :: "string option"
  symbol :: "string option"
  price :: real
  change_24h :: real
  recommendation :: "string option"

text \<open>
  The \<^verbatim>\<open>try\<close> block of the loop over the rows: both conversions stand in one
  block, whose handler takes \<^verbatim>\<open>ValueError\<close> and \<^verbatim>\<open>TypeError\<close> and sets both
  fields to zero.
\<close>

definition parse_numbers :: "(string \<Rightarrow> real option) \<Rightarrow> csv_row \<Rightarrow> (real \<times> real) result" where
  "parse_numbers float_of_string row =
     (case bind_result (float_field float_of_string row ''price'') (\<lambda>p.
             bind_result (float_field float_of_string row ''change_24h'') (\<lambda>c. Inr (p, c))) of
        Inr pc \<Rightarrow> Inr pc
      | Inl e \<Rightarrow> if e = ValueError \<or> e = TypeError then Inr (0, 0) else Inl e)"

definition parse_row :: "(string \<Rightarrow> real option) \<Rightarrow> csv_row \<Rightarrow> signal result" where
  "parse_row float_of_string row =
     bind_result (parse_numbers float_of_string row) (\<lambda>(p, c).
       Inr \<lparr>timestamp = row_get row ''timestamp'',
            name = row_get row ''name'',
            symbol = row_get row ''symbol'',
            price = p,
            change_24h = c,
            recommendation = row_get row ''recommendation''\<rparr>)"

fun read_signals :: "(string \<Rightarrow> real option) \<Rightarrow> csv_row list \<Rightarrow> signal list \<Rightarrow> signal list result" where
  "read_signals float_of_string [] signals = Inr signals"
| "read_signals float_of_string (row # rows) signals =
     bind_result (parse_row float_of_string row) (\<lambda>s.
       read_signals float_of_string rows (signals @ [s]))"

subsection \<open>The latest signal of every token\<close>

text \<open>
  \<^verbatim>\<open>signals.sort(key=lambda x: x['timestamp'], reverse=True)\<close>.  With fewer than two
  elements nothing is compared.  Otherwise every key is compared with another, and a
  comparison with \<^verbatim>\<open>None\<close> is a \<^verbatim>\<open>TypeError\<close>; strings compare
  lexicographically.  A reversed sort reverses the list, sorts it (stably) and reverses
  the result, so that rows of equal timestamp keep the order they had.
\<close>

definition timestamp_key :: "signal \<Rightarrow> string" where
  "timestamp_key s = (case timestamp s of None \<Rightarrow> '''' | Some t \<Rightarrow> t)"

definition sort_signals :: "signal list \<Rightarrow> signal list result" where
  "sort_signals signals =
     (if length signals < 2 then Inr signals
      else if list_ex (\<lambda>s. timestamp s = None) signals then Inl TypeError
      else Inr (rev (sort_key timestamp_key (rev signals))))"

text \<open>The loop that keeps the first signal of every name, with its two variables.\<close>

fun keep_first :: "signal list \<Rightarrow> string option set \<Rightarrow> signal list \<Rightarrow> signal list" where
  "keep_first [] seen_tokens latest_signals = latest_signals"
| "keep_first (s # signals) seen_tokens latest_signals =
     (if name s \<notin> seen_tokens
      then keep_first signals (insert (name s) seen_tokens) (latest_signals @ [s])
      else keep_first signals seen_tokens latest_signals)"

definition latest_signals :: "signal list \<Rightarrow> signal list result" where
  "latest_signals signals =
     bind_result (sort_signals signals) (\<lambda>ordered. Inr (keep_first ordered {} []))"

subsection \<open>The display\<close>

text \<open>
  The colour codes of \<^verbatim>\<open>colorama\<close> are parameters.  \<^verbatim>\<open>f"{s:<20}"\<close> pads a
  string with spaces on the right and is a \<^verbatim>\<open>TypeError\<close> on \<^verbatim>\<open>None\<close>.
\<close>

record colorama =
  fore_green :: string
  fore_red :: string
  fore_cyan :: string
  style_reset_all :: string

definition ljust :: "nat \<Rightarrow> string \<Rightarrow> string" where
  "ljust w s = s @ replicate (w - length s) (CHR '' '')"

definition ljust_cell :: "nat \<Rightarrow> string option \<Rightarrow> string result" where
  "ljust_cell w v = (case v of None \<Rightarrow> Inl TypeError | Some s \<Rightarrow> Inr (ljust w s))"

text \<open>The 24h-change column, before the recommendation is looked at.\<close>

definition change_column :: "colorama \<Rightarrow> real \<Rightarrow> string" where
  "change_column cm change =
     (if change > 0 then fore_green cm @ ''+'' @ format_fixed 2 change @ ''%'' @ style_reset_all cm
      else if change < 0 then fore_red cm @ format_fixed 2 change @ ''%'' @ style_reset_all cm
      else style_reset_all cm @ ''0.00%'' @ style_reset_all cm)"

text \<open>The colour of the row and the text of the change column, by recommendation.\<close>

definition colour_and_change :: "colorama \<Rightarrow> signal \<Rightarrow> string \<times> string" where
  "colour_and_change cm s =
     (let change_str = change_column cm (change_24h s)
      in if recommendation s = Some ''NEW LISTING''
           then (fore_cyan cm, fore_cyan cm @ ''NEW'' @ style_reset_all cm)
         else if recommendation s = Some ''BUY'' then (fore_green cm, change_str)
         else if recommendation s = Some ''SELL'' then (fore_red cm, change_str)
         else (style_reset_all cm, change_str))"

definition signal_line :: "colorama \<Rightarrow> signal \<Rightarrow> string result" where
  "signal_line cm s =
     (let price_str = format_price (price s);
          (color, change_str) = colour_and_change cm s
      in bind_result (ljust_cell 20 (name s)) (\<lambda>n.
         bind_result (ljust_cell 12 (recommendation s)) (\<lambda>r.
           Inr (color @ n @ '' '' @ ljust 15 price_str @ '' '' @ r @ style_reset_all cm
                @ '' '' @ ljust 15 change_str @ '' 12:03:05''))))"

text \<open>
  What a refresh does to the terminal: it clears the screen, prints a line, or prints
  the line of the last handler, \<^verbatim>\<open>f"Error: {str(e)}"\<close>, for an exception
  \<open>e\<close>.  The loop of \<^verbatim>\<open>main\<close> sleeps between two refreshes.
\<close>

datatype event = Clear | Print string | PrintError error | Sleep nat

text \<open>
  The loop over the signals shown: the lines printed, and the exception that ended the
  loop, if any.
\<close>

fun print_signals :: "colorama \<Rightarrow> signal list \<Rightarrow> event list \<times> error option" where
  "print_signals cm [] = ([], None)"
| "print_signals cm (s # signals) =
     (case signal_line cm s of
        Inl e \<Rightarrow> ([], Some e)
      | Inr line \<Rightarrow>
          (case print_signals cm signals of (evs, r) \<Rightarrow> (Print line # evs, r)))"

definition newline :: string where
  "newline = [CHR 0x0A]"

definition robot_face :: string where
  "robot_face = [CHR 0xF0, CHR 0x9F, CHR 0xA4, CHR 0x96]"

definition bar_chart :: string where
  "bar_chart = [CHR 0xF0, CHR 0x9F, CHR 0x93, CHR 0x8A]"

definition header :: "event list" where
  "header =
     [Clear,
      Print (newline @ robot_face @ '' Latest Trading Signals - 2025-02-02''),
      Print (bar_chart @ '' Last Update: 12:03:05''),
      Print (replicate 100 (CHR ''='')),
      Print (ljust 20 ''Token'' @ '' '' @ ljust 15 ''Price'' @ '' '' @ ljust 12 ''Signal''
             @ '' '' @ ljust 12 ''1h Change'' @ '' '' @ ljust 10 ''Time''),
      Print (replicate 100 (CHR ''-''))]"

text \<open>
  The body of the outer \<^verbatim>\<open>try\<close>, from the result of opening and reading the file
  (its rows, or the exception raised): what was printed, and the exception that ended
  it, if any.
\<close>

definition refresh_body ::
  "(string \<Rightarrow> real option) \<Rightarrow> colorama \<Rightarrow> csv_row list result \<Rightarrow> event list \<times> error option" where
  "refresh_body float_of_string cm file =
     (case bind_result file (\<lambda>rows.
             bind_result (read_signals float_of_string rows []) latest_signals) of
        Inl e \<Rightarrow> ([], Some e)
      | Inr latest \<Rightarrow>
          (case print_signals cm (take 20 latest) of
             (evs, Some e) \<Rightarrow> (header @ evs, Some e)
           | (evs, None) \<Rightarrow>
               (header @ evs @ [Print (newline @ replicate 100 (CHR ''=''))], None)))"

text \<open>
  The two handlers: \<^verbatim>\<open>FileNotFoundError\<close> first, then every other
  \<^verbatim>\<open>Exception\<close>.  All exceptions of the model are of that class, so the function
  returns; its result is what it printed.
\<close>

definition read_and_display_signals ::
  "(string \<Rightarrow> real option) \<Rightarrow> colorama \<Rightarrow> csv_row list result \<Rightarrow> event list result" where
  "read_and_display_signals float_of_string cm file =
     (case refresh_body float_of_string cm file of
        (evs, None) \<Rightarrow> Inr evs
      | (evs, Some e) \<Rightarrow>
          if e = FileNotFoundError
          then Inr (evs @ [Print ''Error: analysis_results.csv not found''])
          else Inr (evs @ [PrintError e]))"

text \<open>
  The loop of \<^verbatim>\<open>main\<close> never ends by itself.  It is observed over the states of
  the file at the successive refreshes: the events so far, and the exception that left
  the loop, if one did.
\<close>

fun main :: "(string \<Rightarrow> real option) \<Rightarrow> colorama \<Rightarrow> csv_row list result list
    \<Rightarrow> event list \<times> error option" where
  "main float_of_string cm [] = ([], None)"
| "main float_of_string cm (file # files) =
     (case read_and_display_signals float_of_string cm file of
        Inl e \<Rightarrow> ([], Some e)
      | Inr evs \<Rightarrow>
          (case main float_of_string cm files of
             (rest, r) \<Rightarrow> (evs @ Sleep 5 # rest, r)))"

section \<open>Notions used in the statements\<close>

text \<open>
  The typing of \<^verbatim>\<open>proc.info\<close> as \<^verbatim>\<open>psutil\<close> fills it: the name is a string, the
  command line a list of strings or \<^verbatim>\<open>None\<close>, the two percentages numbers.
\<close>

definition is_number :: "pyval \<Rightarrow> bool" where
  "is_number v = (case v of PNum _ \<Rightarrow> True | _ \<Rightarrow> False)"

definition well_typed :: "process \<Rightarrow> bool" where
  "well_typed p =
     ((case info p ''name'' of Some (PStr _) \<Rightarrow> True | _ \<Rightarrow> False)
      \<and> (case info p ''cmdline'' of Some PNone \<Rightarrow> True | Some (PList _) \<Rightarrow> True | _ \<Rightarrow> False)
      \<and> is_number (dict_get (info p) ''cpu_percent'' (PNum 0))
      \<and> is_number (dict_get (info p) ''memory_percent'' (PNum 0)))"


text \<open>
  The entries of a list whose key is neither in \<open>seen\<close> nor the key of an earlier
  entry, in the order of the list.
\<close>

fun first_by :: "('a \<Rightarrow> 'k) \<Rightarrow> 'a list \<Rightarrow> 'k set \<Rightarrow> 'a list" where
  "first_by key [] seen = []"
| "first_by key (x # xs) seen =
     (if key x \<in> seen then first_by key xs seen
      else x # first_by key xs (insert (key x) seen))"

subsection \<open>Example processes\<close>

definition idle_python :: process where
  "idle_python =
     \<lparr>pid = 7,
      info = [''name'' \<mapsto> PStr ''Python3'', ''cmdline'' \<mapsto> PList [''python3'', ''bot.py''],
              ''cpu_percent'' \<mapsto> PNum 0, ''memory_percent'' \<mapsto> PNum 0,
              ''status'' \<mapsto> PStr ''stopped'']\<rparr>"

definition release_agent :: process where
  "release_agent =
     \<lparr>pid = 42,
      info = [''name'' \<mapsto> PStr ''agent'',
              ''cmdline'' \<mapsto> PList [''/root/RIGnew/target/release/agent'', ''--live''],
              ''cpu_percent'' \<mapsto> PNum (3 / 2), ''memory_percent'' \<mapsto> PNum (1 / 4),
              ''status'' \<mapsto> PStr ''sleeping'']\<rparr>"

definition shell :: process where
  "shell =
     \<lparr>pid = 9,
      info = [''name'' \<mapsto> PStr ''bash'', ''cmdline'' \<mapsto> PList [''-bash''],
              ''cpu_percent'' \<mapsto> PNum 0, ''memory_percent'' \<mapsto> PNum (1 / 10),
              ''status'' \<mapsto> PStr ''sleeping'']\<rparr>"

subsection \<open>Example rows\<close>

text \<open>
  The values of \<^verbatim>\<open>float\<close> on the strings of the examples (\<^verbatim>\<open>float('3.2')\<close> is the
  double nearest to 3.2); it raises \<^verbatim>\<open>ValueError\<close> on the others.
\<close>

definition example_float :: "string \<Rightarrow> real option" where
  "example_float =
     map_of [(''0.5'', 1 / 2), (''1.5'', 3 / 2), (''0'', 0),
             (''3.2'', 3602879701896397 / 1125899906842624)]"

definition make_row :: "string \<Rightarrow> string \<Rightarrow> string \<Rightarrow> string \<Rightarrow> string \<Rightarrow> string \<Rightarrow> csv_row" where
  "make_row t n s p c r =
     [''timestamp'' \<mapsto> Some t, ''name'' \<mapsto> Some n, ''symbol'' \<mapsto> Some s,
      ''price'' \<mapsto> Some p, ''change_24h'' \<mapsto> Some c, ''recommendation'' \<mapsto> Some r]"

definition is_sleep :: "event \<Rightarrow> bool" where
  "is_sleep ev = (case ev of Sleep _ \<Rightarrow> True | _ \<Rightarrow> False)"

text \<open>The codes that \<^verbatim>\<open>colorama\<close> defines: the ANSI escape sequences.\<close>

definition example_colours :: colorama where
  "example_colours =
     \<lparr>fore_green = CHR 0x1B # ''[32m'', fore_red = CHR 0x1B # ''[31m'',
      fore_cyan = CHR 0x1B # ''[36m'', style_reset_all = CHR 0x1B # ''[0m''\<rparr>"

definition example_signal :: "string \<Rightarrow> string \<Rightarrow> real \<Rightarrow> signal" where
  "example_signal t n p =
     \<lparr>timestamp = Some t, name = Some n, symbol = Some n, price = p, change_24h = 0,
      recommendation = Some ''BUY''\<rparr>"

section \<open>Basic facts\<close>

lemma bind_result_Inr [simp]: "bind_result (Inr x) f = f x"
  by (simp add: bind_result_def)

lemma bind_result_Inl [simp]: "bind_result (Inl e) f = Inl e"
  by (simp add: bind_result_def)

lemma bind_result_eq_Inr:
  "bind_result m f = Inr y \<longleftrightarrow> (\<exists>x. m = Inr x \<and> f x = Inr y)"
  by (cases m) simp_all

lemma should_show_process_numeric:
  assumes "dict_get d ''cpu_percent'' (PNum 0) = PNum cpu"
    and "dict_get d ''memory_percent'' (PNum 0) = PNum mem"
  shows "should_show_process d =
           Inr (dict_get d ''status'' (PStr '''') \<notin> set suppressed_statuses
                \<or> float_0_1 < cpu \<or> float_0_1 < mem)"
  using assms by (simp add: should_show_process_def py_gt_def)

lemma float_0_1_pos: "0 < float_0_1"
  by (simp add: float_0_1_def)

lemma should_show_process_idle:
  assumes "d ''status'' = Some (PStr ''stopped'')"
    and "d ''cpu_percent'' = Some (PNum 0)" and "d ''memory_percent'' = Some (PNum 0)"
  shows "should_show_process d = Inr False"
  using assms float_0_1_pos
  by (simp add: should_show_process_def py_gt_def dict_get_def suppressed_statuses_def)

lemma append_if_shown_Inr:
  "append_if_shown p acc = Inr acc' \<Longrightarrow>
     acc' = acc \<or> (should_show_process (info p) = Inr True \<and> acc' = acc @ [p])"
  by (auto simp: append_if_shown_def bind_result_eq_Inr split: if_splits)

lemma visit_Inr:
  assumes "visit p acc = Inr acc'"
  shows "acc' = acc \<or> (should_show_process (info p) = Inr True
           \<and> (acc' = acc @ [p] \<or> acc' = acc @ [p, p]))"
  using assms
  by (auto simp: visit_def bind_result_eq_Inr Let_def split: if_splits dest!: append_if_shown_Inr)

lemma collect_Inr:
  "collect procs acc = Inr sel \<Longrightarrow>
     \<exists>new. sel = acc @ new \<and>
       (\<forall>q\<in>set new. q \<in> set procs \<and> should_show_process (info q) = Inr True)"
proof (induction procs arbitrary: acc)
  case Nil
  then show ?case by simp
next
  case (Cons p procs)
  from Cons.prems obtain acc' where v: "visit p acc = Inr acc'"
    and c: "collect procs acc' = Inr sel"
    by (auto simp: bind_result_eq_Inr)
  from Cons.IH [OF c] obtain new where new: "sel = acc' @ new"
    "\<forall>q\<in>set new. q \<in> set procs \<and> should_show_process (info q) = Inr True"
    by blast
  from visit_Inr [OF v] show ?case
  proof (elim disjE conjE)
    assume "acc' = acc"
    with new show ?thesis by auto
  next
    assume "should_show_process (info p) = Inr True" "acc' = acc @ [p]"
    with new show ?thesis by (intro exI [of _ "p # new"]) auto
  next
    assume "should_show_process (info p) = Inr True" "acc' = acc @ [p, p]"
    with new show ?thesis by (intro exI [of _ "p # p # new"]) auto
  qed
qed

text \<open>The shape of both loops that keep the first entry of every key.\<close>

lemma first_by_subset: "set (first_by key xs seen) \<subseteq> set xs"
  by (induction xs arbitrary: seen) auto

lemma first_by_keys: "key ` set (first_by key xs seen) = key ` set xs - seen"
  by (induction xs arbitrary: seen) auto

lemma first_by_distinct: "distinct (map key (first_by key xs seen))"
proof (induction xs arbitrary: seen)
  case Nil
  then show ?case by simp
next
  case (Cons x xs)
  have "key x \<notin> key ` set (first_by key xs (insert (key x) seen))"
    by (simp add: first_by_keys)
  with Cons.IH show ?case by simp
qed

lemma first_by_subseq: "subseq (first_by key xs seen) xs"
  by (induction xs arbitrary: seen) auto

lemma first_by_find:
  "k \<notin> seen \<Longrightarrow>
     find (\<lambda>p. key p = k) (first_by key xs seen) = find (\<lambda>p. key p = k) xs"
proof (induction xs arbitrary: seen)
  case Nil
  then show ?case by simp
next
  case (Cons x xs)
  show ?case
  proof (cases "key x = k")
    case True
    with Cons.prems show ?thesis by simp
  next
    case False
    with Cons show ?thesis by simp
  qed
qed

lemma distinct_key_once:
  "distinct (map key ys) \<Longrightarrow> k \<in> key ` set ys \<Longrightarrow>
     length (filter (\<lambda>q. key q = k) ys) = 1"
proof (induction ys)
  case Nil
  then show ?case by simp
next
  case (Cons y ys)
  show ?case
  proof (cases "key y = k")
    case True
    with Cons.prems have "\<forall>q\<in>set ys. key q \<noteq> k" by (auto simp: image_iff)
    then have "filter (\<lambda>q. key q = k) ys = []" by (simp add: filter_empty_conv)
    with True show ?thesis by simp
  next
    case False
    with Cons show ?thesis by auto
  qed
qed

lemma first_by_once:
  "k \<in> key ` set xs \<Longrightarrow> length (filter (\<lambda>q. key q = k) (first_by key xs {})) = 1"
  by (rule distinct_key_once) (simp_all add: first_by_distinct first_by_keys)

lemma remove_duplicates_first_by:
  "remove_duplicates xs seen uniq = uniq @ first_by pid xs seen"
  by (induction xs arbitrary: seen uniq) auto

lemma keep_first_first_by:
  "keep_first xs seen latest = latest @ first_by name xs seen"
  by (induction xs arbitrary: seen latest) auto

lemma get_rig_processes_Inr:
  "get_rig_processes procs = Inr out \<longleftrightarrow>
     (\<exists>sel. collect procs [] = Inr sel \<and> out = first_by pid sel {})"
  by (auto simp: get_rig_processes_def bind_result_eq_Inr remove_duplicates_first_by)

lemma get_rig_processes_shown:
  assumes "get_rig_processes procs = Inr out" and "q \<in> set out"
  shows "q \<in> set procs \<and> should_show_process (info q) = Inr True"
proof -
  from assms(1) obtain sel where sel: "collect procs [] = Inr sel" "out = first_by pid sel {}"
    by (auto simp: get_rig_processes_Inr)
  from assms(2) sel(2) have "q \<in> set sel" using first_by_subset by fastforce
  with collect_Inr [OF sel(1)] show ?thesis by auto
qed

lemma cmdline_any_list:
  "cmdline_any P (PList args) = Inr (list_ex P args)"
  by (cases args) (simp_all add: cmdline_any_def truthy_def iterate_def)

lemma cmdline_any_none: "cmdline_any P PNone = Inr False"
  by (simp add: cmdline_any_def truthy_def)

lemma visit_marker:
  assumes "visit proc acc = Inr acc'"
    and "info proc ''cmdline'' = Some (PList args)" and "\<exists>a\<in>set args. str_in rig_path a"
    and "should_show_process (info proc) = Inr True"
  shows "proc \<in> set acc'"
proof -
  have m: "matches_rig nm (PList args) = Inr True" for nm
    using assms(3) by (simp add: matches_rig_def cmdline_any_list list_ex_iff)
  have a: "append_if_shown proc xs = Inr (xs @ [proc])" for xs
    using assms(4) by (simp add: append_if_shown_def)
  from assms(1) show ?thesis
    by (auto simp: visit_def subscript_def assms(2) m a bind_result_eq_Inr Let_def
             split: if_splits)
qed

lemma collect_marker:
  assumes "collect procs acc = Inr sel" and "proc \<in> set procs"
    and "info proc ''cmdline'' = Some (PList args)" and "\<exists>a\<in>set args. str_in rig_path a"
    and "should_show_process (info proc) = Inr True"
  shows "proc \<in> set sel"
  using assms(1,2)
proof (induction procs arbitrary: acc)
  case Nil
  then show ?case by simp
next
  case (Cons p procs)
  from Cons.prems(1) obtain acc' where v: "visit p acc = Inr acc'"
    and c: "collect procs acc' = Inr sel"
    by (auto simp: bind_result_eq_Inr)
  show ?case
  proof (cases "proc = p")
    case True
    with v assms(3-5) have "proc \<in> set acc'" by (auto intro: visit_marker)
    with collect_Inr [OF c] show ?thesis by auto
  next
    case False
    with Cons.prems(2) have "proc \<in> set procs" by simp
    with Cons.IH c show ?thesis by blast
  qed
qed

lemma should_show_process_total:
  assumes "is_number (dict_get d ''cpu_percent'' (PNum 0))"
    and "is_number (dict_get d ''memory_percent'' (PNum 0))"
  shows "\<exists>b. should_show_process d = Inr b"
  using assms
  by (auto simp: should_show_process_def is_number_def py_gt_def Let_def split: pyval.splits)

lemma matches_rig_total:
  assumes "c = PNone \<or> (\<exists>args. c = PList args)"
  shows "\<exists>m. matches_rig nm c = Inr m"
  using assms by (auto simp: matches_rig_def cmdline_any_none cmdline_any_list)

lemma visit_total:
  assumes "well_typed p"
  shows "\<exists>acc'. visit p acc = Inr acc'"
proof -
  from assms obtain b where b: "should_show_process (info p) = Inr b"
    using should_show_process_total by (auto simp: well_typed_def)
  have a: "\<exists>ys. append_if_shown p xs = Inr ys" for xs
    by (simp add: append_if_shown_def b)
  from assms obtain s c where n: "info p ''name'' = Some (PStr s)"
    and c: "info p ''cmdline'' = Some c" "c = PNone \<or> (\<exists>args. c = PList args)"
    by (auto simp: well_typed_def split: option.splits pyval.splits)
  obtain m where m: "matches_rig (lower s) c = Inr m"
    using matches_rig_total [OF c(2)] by blast
  obtain acc1 where acc1: "(if m then append_if_shown p acc else Inr acc) = Inr acc1"
    using a [of acc] by (cases m) auto
  have "\<exists>r. (if truthy c
          then bind_result (first_item c) (\<lambda>a.
                 let executable = lower a in
                 if matches_executable executable then append_if_shown p acc1
                 else Inr acc1)
          else Inr acc1) = Inr r"
  proof (cases "truthy c")
    case False
    then show ?thesis by simp
  next
    case True
    with c(2) obtain x xs where "c = PList (x # xs)"
      by (cases c) (auto simp: truthy_def neq_Nil_conv)
    then show ?thesis
      using a [of acc1] by (auto simp: first_item_def truthy_def Let_def)
  qed
  then obtain r where "(if truthy c
          then bind_result (first_item c) (\<lambda>a.
                 let executable = lower a in
                 if matches_executable executable then append_if_shown p acc1
                 else Inr acc1)
          else Inr acc1) = Inr r" ..
  then have "visit p acc = Inr r"
    by (simp add: visit_def subscript_def n c(1) py_lower_def m acc1)
  then show ?thesis ..
qed

lemma collect_total:
  "\<forall>p\<in>set procs. well_typed p \<Longrightarrow> \<exists>sel. collect procs acc = Inr sel"
proof (induction procs arbitrary: acc)
  case Nil
  then show ?case by simp
next
  case (Cons p procs)
  then obtain acc' where "visit p acc = Inr acc'" using visit_total by fastforce
  with Cons show ?case by simp
qed

section \<open>The visibility predicate\<close>

text \<open>Rules that evaluate the definitions on concrete inputs.\<close>

lemmas string_eval = str_in_def sublist_Cons_right lower_def lower_char_def

lemma visit_idle_python: "visit idle_python acc = Inr acc"
  unfolding visit_def
  by (simp add: idle_python_def subscript_def py_lower_def matches_rig_def cmdline_any_def
      truthy_def iterate_def first_item_def matches_executable_def append_if_shown_def
      should_show_process_def dict_get_def suppressed_statuses_def py_gt_def float_0_1_def
      rig_path_def string_eval)

text \<open>
  C1: on a process record with numeric usage fields, \<^verbatim>\<open>should_show_process\<close>
  returns true exactly when the status is none of stopped, dead and zombie, or the CPU
  usage exceeds 0.1, or the memory usage exceeds 0.1.  A stopped process with zero CPU
  and zero memory is not shown, and the selector never returns it, whatever matched.
  On any dictionary, a status outside the three gives true, and true is returned only
  for one of the three reasons.
\<close>

theorem should_show_process_spec:
  "(dict_get d ''cpu_percent'' (PNum 0) = PNum cpu
      \<and> dict_get d ''memory_percent'' (PNum 0) = PNum mem \<longrightarrow>
    should_show_process d =
      Inr (dict_get d ''status'' (PStr '''') \<notin> {PStr ''stopped'', PStr ''dead'', PStr ''zombie''}
           \<or> float_0_1 < cpu \<or> float_0_1 < mem))
   \<and> (d ''status'' = Some (PStr ''stopped'') \<and> d ''cpu_percent'' = Some (PNum 0)
        \<and> d ''memory_percent'' = Some (PNum 0) \<longrightarrow>
      should_show_process d = Inr False
      \<and> (\<forall>procs out. get_rig_processes procs = Inr out \<longrightarrow> (\<forall>q\<in>set out. info q \<noteq> d)))
   \<and> (dict_get d ''status'' (PStr '''') \<notin> {PStr ''stopped'', PStr ''dead'', PStr ''zombie''} \<longrightarrow>
        should_show_process d = Inr True)
   \<and> (should_show_process d = Inr True \<longrightarrow>
        dict_get d ''status'' (PStr '''') \<notin> {PStr ''stopped'', PStr ''dead'', PStr ''zombie''}
        \<or> (\<exists>c. dict_get d ''cpu_percent'' (PNum 0) = PNum c \<and> float_0_1 < c)
        \<or> (\<exists>c. dict_get d ''memory_percent'' (PNum 0) = PNum c \<and> float_0_1 < c))"
proof (intro conjI impI allI ballI)
  assume "dict_get d ''status'' (PStr '''') \<notin> {PStr ''stopped'', PStr ''dead'', PStr ''zombie''}"
  then show "should_show_process d = Inr True"
    by (simp add: should_show_process_def suppressed_statuses_def)
next
  assume "should_show_process d = Inr True"
  then show "dict_get d ''status'' (PStr '''') \<notin> {PStr ''stopped'', PStr ''dead'', PStr ''zombie''}
        \<or> (\<exists>c. dict_get d ''cpu_percent'' (PNum 0) = PNum c \<and> float_0_1 < c)
        \<or> (\<exists>c. dict_get d ''memory_percent'' (PNum 0) = PNum c \<and> float_0_1 < c)"
    by (auto simp: should_show_process_def suppressed_statuses_def py_gt_def Let_def
          bind_result_eq_Inr split: if_splits pyval.splits)
next
  assume "dict_get d ''cpu_percent'' (PNum 0) = PNum cpu
      \<and> dict_get d ''memory_percent'' (PNum 0) = PNum mem"
  then show "should_show_process d =
      Inr (dict_get d ''status'' (PStr '''') \<notin> {PStr ''stopped'', PStr ''dead'', PStr ''zombie''}
           \<or> float_0_1 < cpu \<or> float_0_1 < mem)"
    using should_show_process_numeric [of d cpu mem] by (simp add: suppressed_statuses_def)
next
  assume idle: "d ''status'' = Some (PStr ''stopped'') \<and> d ''cpu_percent'' = Some (PNum 0)
        \<and> d ''memory_percent'' = Some (PNum 0)"
  then show hidden: "should_show_process d = Inr False"
    by (simp add: should_show_process_idle)
  fix procs out q
  assume "get_rig_processes procs = Inr out" and "q \<in> set out"
  then have "should_show_process (info q) = Inr True"
    by (simp add: get_rig_processes_shown)
  with hidden show "info q \<noteq> d" by auto
qed

theorem should_show_process_spec_witness:
  "should_show_process (info idle_python) = Inr False
   \<and> matches_rig ''python3'' (PList [''python3'', ''bot.py'']) = Inr True
   \<and> get_rig_processes [idle_python] = Inr []
   \<and> should_show_process ((info idle_python)(''cpu_percent'' \<mapsto> PNum (2 / 10))) = Inr True
   \<and> should_show_process ((info idle_python)(''cpu_percent'' \<mapsto> PNum float_0_1)) = Inr False
   \<and> should_show_process ((info idle_python)(''status'' \<mapsto> PStr ''sleeping'')) = Inr True"
proof -
  have a: "should_show_process (info idle_python) = Inr False"
    using should_show_process_spec [of "info idle_python" 0 0]
    by (simp add: idle_python_def dict_get_def float_0_1_def)
  have b: "matches_rig ''python3'' (PList [''python3'', ''bot.py'']) = Inr True"
    by (simp add: matches_rig_def cmdline_any_def truthy_def iterate_def string_eval rig_path_def)
  have c: "get_rig_processes [idle_python] = Inr []"
    by (simp add: get_rig_processes_def visit_idle_python)
  have d: "should_show_process ((info idle_python)(''cpu_percent'' \<mapsto> PNum (2 / 10))) = Inr True"
    using should_show_process_spec [of "(info idle_python)(''cpu_percent'' \<mapsto> PNum (2 / 10))" "2 / 10" 0]
    by (simp add: idle_python_def dict_get_def float_0_1_def)
  have e: "should_show_process ((info idle_python)(''cpu_percent'' \<mapsto> PNum float_0_1)) = Inr False"
    using should_show_process_spec [of "(info idle_python)(''cpu_percent'' \<mapsto> PNum float_0_1)" float_0_1 0]
    by (simp add: idle_python_def dict_get_def float_0_1_def)
  have f: "should_show_process ((info idle_python)(''status'' \<mapsto> PStr ''sleeping'')) = Inr True"
    using should_show_process_spec [of "(info idle_python)(''status'' \<mapsto> PStr ''sleeping'')" 0 0]
    by (simp add: idle_python_def dict_get_def float_0_1_def)
  from a b c d e f show ?thesis by blast
qed

section \<open>The selector\<close>

lemma get_rig_processes_total:
  "\<forall>p\<in>set procs. well_typed p \<Longrightarrow> \<exists>out. get_rig_processes procs = Inr out"
  using collect_total [of procs "[]"] by (auto simp: get_rig_processes_def)

lemma visit_release_agent:
  "visit release_agent acc = Inr (acc @ [release_agent, release_agent])"
  unfolding visit_def
  by (simp add: release_agent_def subscript_def py_lower_def matches_rig_def cmdline_any_def
      truthy_def iterate_def first_item_def matches_executable_def append_if_shown_def
      should_show_process_def dict_get_def suppressed_statuses_def rig_path_def string_eval)

lemma visit_shell: "visit shell acc = Inr acc"
  unfolding visit_def
  by (simp add: shell_def subscript_def py_lower_def matches_rig_def cmdline_any_def
      truthy_def iterate_def first_item_def matches_executable_def rig_path_def string_eval)

lemma collect_release_agent: "collect [release_agent] [] = Inr [release_agent, release_agent]"
  by (simp add: visit_release_agent)

lemma get_rig_processes_example:
  "get_rig_processes [shell, release_agent, idle_python] = Inr [release_agent]"
  by (simp add: get_rig_processes_def visit_release_agent visit_shell visit_idle_python)

text \<open>
  C3: the selector returns at most one entry for every pid.  Whatever the loop over the
  processes collected (a process that passes both tests is collected twice), the result
  has each collected pid exactly once, its entries stand in the order in which they were
  collected, and the entry of a pid is the first one collected for it.
\<close>

theorem get_rig_processes_unique:
  "(\<forall>e. collect procs [] = Inl e \<longrightarrow> get_rig_processes procs = Inl e)
   \<and> (\<forall>sel. collect procs [] = Inr sel \<longrightarrow>
        (\<exists>out. get_rig_processes procs = Inr out
           \<and> distinct (map pid out)
           \<and> pid ` set out = pid ` set sel
           \<and> subseq out sel
           \<and> (\<forall>p\<in>set sel. length (filter (\<lambda>q. pid q = pid p) out) = 1
                  \<and> find (\<lambda>q. pid q = pid p) out = find (\<lambda>q. pid q = pid p) sel)))
   \<and> ((\<forall>p\<in>set procs. well_typed p) \<longrightarrow> (\<exists>sel. collect procs [] = Inr sel))"
proof (intro conjI allI impI)
  fix e
  assume "collect procs [] = Inl e"
  then show "get_rig_processes procs = Inl e" by (simp add: get_rig_processes_def)
next
  fix sel
  assume sel: "collect procs [] = Inr sel"
  let ?out = "first_by pid sel {}"
  have "get_rig_processes procs = Inr ?out"
    using sel by (simp add: get_rig_processes_Inr)
  moreover have "distinct (map pid ?out)" by (rule first_by_distinct)
  moreover have "pid ` set ?out = pid ` set sel" by (simp add: first_by_keys)
  moreover have "subseq ?out sel" by (rule first_by_subseq)
  moreover have "\<forall>p\<in>set sel. length (filter (\<lambda>q. pid q = pid p) ?out) = 1
      \<and> find (\<lambda>q. pid q = pid p) ?out = find (\<lambda>q. pid q = pid p) sel"
    by (simp add: first_by_once first_by_find)
  ultimately show "\<exists>out. get_rig_processes procs = Inr out
           \<and> distinct (map pid out)
           \<and> pid ` set out = pid ` set sel
           \<and> subseq out sel
           \<and> (\<forall>p\<in>set sel. length (filter (\<lambda>q. pid q = pid p) out) = 1
                  \<and> find (\<lambda>q. pid q = pid p) out = find (\<lambda>q. pid q = pid p) sel)"
    by blast
next
  assume "\<forall>p\<in>set procs. well_typed p"
  then show "\<exists>sel. collect procs [] = Inr sel" by (rule collect_total)
qed

theorem get_rig_processes_unique_witness:
  "collect [release_agent] [] = Inr [release_agent, release_agent]
   \<and> get_rig_processes [release_agent] = Inr [release_agent]
   \<and> length (filter (\<lambda>q. pid q = 42) [release_agent]) = 1
   \<and> well_typed release_agent"
proof -
  have c: "collect [release_agent] [] = Inr [release_agent, release_agent]"
    by (rule collect_release_agent)
  have g: "get_rig_processes [release_agent] = Inr [release_agent]"
    by (simp add: get_rig_processes_def visit_release_agent)
  have "length (filter (\<lambda>q. pid q = pid release_agent) [release_agent]) = 1"
    using get_rig_processes_unique [of "[release_agent]"] c g by auto
  then have l: "length (filter (\<lambda>q. pid q = 42) [release_agent]) = 1"
    by (simp add: release_agent_def)
  have w: "well_typed release_agent"
    by (simp add: well_typed_def is_number_def release_agent_def dict_get_def)
  from c g l w show ?thesis by blast
qed

text \<open>
  C8: a process with an argument of its command line that contains the marker path
  \<^verbatim>\<open>/root/RIGnew\<close> is returned by the selector when the visibility predicate holds
  for it, whatever its name: its pid is among the pids returned, and the process itself
  is returned when the pids of the pass are distinct.  The selector returns on every
  pass of well-typed processes.
\<close>

theorem marker_path_selected:
  "(get_rig_processes procs = Inr out \<and> proc \<in> set procs
      \<and> info proc ''cmdline'' = Some (PList args) \<and> (\<exists>a\<in>set args. str_in rig_path a)
      \<and> should_show_process (info proc) = Inr True \<longrightarrow>
    pid proc \<in> pid ` set out \<and> (distinct (map pid procs) \<longrightarrow> proc \<in> set out))
   \<and> ((\<forall>p\<in>set procs. well_typed p) \<longrightarrow> (\<exists>out. get_rig_processes procs = Inr out))"
proof (intro conjI impI)
  assume a: "get_rig_processes procs = Inr out \<and> proc \<in> set procs
      \<and> info proc ''cmdline'' = Some (PList args) \<and> (\<exists>a\<in>set args. str_in rig_path a)
      \<and> should_show_process (info proc) = Inr True"
  then obtain sel where sel: "collect procs [] = Inr sel" "out = first_by pid sel {}"
    by (auto simp: get_rig_processes_Inr)
  from a sel(1) have "proc \<in> set sel" by (auto intro: collect_marker)
  then have "pid proc \<in> pid ` set sel" by simp
  then show in_out: "pid proc \<in> pid ` set out" by (simp add: sel(2) first_by_keys)
  assume d: "distinct (map pid procs)"
  from in_out obtain q where q: "q \<in> set out" "pid q = pid proc" by auto
  from a q(1) have "q \<in> set procs" by (simp add: get_rig_processes_shown)
  with d q(2) a have "q = proc" by (auto simp: distinct_map inj_on_def)
  with q(1) show "proc \<in> set out" by simp
next
  assume "\<forall>p\<in>set procs. well_typed p"
  then show "\<exists>out. get_rig_processes procs = Inr out" by (rule get_rig_processes_total)
qed

theorem marker_path_selected_witness:
  "get_rig_processes [shell, release_agent, idle_python] = Inr [release_agent]
   \<and> str_in rig_path ''/root/RIGnew/target/release/agent''
   \<and> should_show_process (info release_agent) = Inr True
   \<and> distinct (map pid [shell, release_agent, idle_python])
   \<and> release_agent \<in> set [release_agent]
   \<and> well_typed shell \<and> well_typed release_agent \<and> well_typed idle_python"
proof -
  have g: "get_rig_processes [shell, release_agent, idle_python] = Inr [release_agent]"
    by (rule get_rig_processes_example)
  have s: "str_in rig_path ''/root/RIGnew/target/release/agent''"
    by (simp add: rig_path_def string_eval)
  have v: "should_show_process (info release_agent) = Inr True"
    by (simp add: release_agent_def should_show_process_def dict_get_def suppressed_statuses_def)
  have d: "distinct (map pid [shell, release_agent, idle_python])"
    by (simp add: release_agent_def shell_def idle_python_def)
  have c: "info release_agent ''cmdline''
      = Some (PList [''/root/RIGnew/target/release/agent'', ''--live''])"
    by (simp add: release_agent_def)
  have "release_agent \<in> set [release_agent]"
    using marker_path_selected [of "[shell, release_agent, idle_python]" "[release_agent]"
        release_agent "[''/root/RIGnew/target/release/agent'', ''--live'']"] g s v d c
    by simp
  moreover have "well_typed shell \<and> well_typed release_agent \<and> well_typed idle_python"
    by (simp add: well_typed_def is_number_def release_agent_def shell_def idle_python_def
        dict_get_def)
  ultimately show ?thesis using g s v d by blast
qed

section \<open>The formatters\<close>

lemma digits_small: "n < 10 \<Longrightarrow> digits n = [digit_char n]"
  by (simp add: digits.simps)

lemma digits_large: "10 \<le> n \<Longrightarrow> digits n = digits (n div 10) @ [digit_char (n mod 10)]"
  by (subst digits.simps) simp

lemma replicate_pos: "0 < n \<Longrightarrow> replicate n x = x # replicate (n - 1) x"
  by (cases n) simp_all

lemmas format_eval =
  format_fixed_def round_half_even_def zero_pad_def digits_small digits_large digit_char_def
  replicate_pos Let_def

text \<open>The two float literals are doubles, the nearest to the decimals written.\<close>

lemma float_0_1_double:
  "float_0_1 = 3602879701896397 / 2 ^ 55 \<and> 3602879701896397 < (2::nat) ^ 53
   \<and> 1 / 10 < float_0_1 \<and> float_0_1 - 1 / 10 < 1 / 2 ^ 57"
  by (simp add: float_0_1_def)

lemma float_0_01_double:
  "float_0_01 = 5764607523034235 / 2 ^ 59 \<and> 5764607523034235 < (2::nat) ^ 53
   \<and> 1 / 100 < float_0_01 \<and> float_0_01 - 1 / 100 < 1 / 2 ^ 60"
  by (simp add: float_0_01_def)

lemma round_half_even_close: "\<bar>of_int (round_half_even q) - q\<bar> \<le> 1 / 2"
proof -
  have "of_int \<lfloor>q\<rfloor> \<le> q" "q < of_int \<lfloor>q\<rfloor> + 1" by linarith+
  then show ?thesis by (auto simp: round_half_even_def Let_def)
qed

lemma round_half_even_of_int: "round_half_even (of_int k) = k"
  by (simp add: round_half_even_def)

lemma digits_length: "0 < d \<Longrightarrow> n < 10 ^ d \<Longrightarrow> length (digits n) \<le> d"
proof (induction d arbitrary: n)
  case 0
  then show ?case by simp
next
  case (Suc d)
  show ?case
  proof (cases "n < 10")
    case True
    then show ?thesis by (simp add: digits_small)
  next
    case False
    with Suc.prems have "0 < d" by (cases d) auto
    moreover from Suc.prems have "n div 10 < 10 ^ d" by (simp add: less_mult_imp_div_less)
    ultimately have "length (digits (n div 10)) \<le> d" by (rule Suc.IH)
    with False show ?thesis by (simp add: digits_large)
  qed
qed

lemma digits_decimal: "set (digits n) \<subseteq> set ''0123456789''"
proof (induction n rule: digits.induct)
  case (1 n)
  have d: "digit_char k \<in> set ''0123456789''" if "k < 10" for k
  proof -
    from that have "k \<in> {0, 1, 2, 3, 4, 5, 6, 7, 8, 9}" by auto
    then show ?thesis by (auto simp: digit_char_def)
  qed
  show ?case
  proof (cases "n < 10")
    case True
    then show ?thesis using d [of n] by (simp add: digits_small)
  next
    case False
    with 1 d [of "n mod 10"] show ?thesis by (simp add: digits_large)
  qed
qed

text \<open>
  The shape of a formatted number: a minus sign when it is negative, the digits of the
  integer part, a point, and exactly \<open>d\<close> digits.
\<close>

lemma format_fixed_shape:
  assumes "0 < d"
  shows "\<exists>ip fp. format_fixed d x = (if x < 0 then ''-'' else '''') @ ip @ ''.'' @ fp
           \<and> ip \<noteq> [] \<and> length fp = d
           \<and> set ip \<subseteq> set ''0123456789'' \<and> set fp \<subseteq> set ''0123456789''"
proof -
  define n where "n = nat (round_half_even (\<bar>x\<bar> * 10 ^ d))"
  let ?ip = "digits (n div 10 ^ d)"
  let ?fp = "zero_pad d (digits (n mod 10 ^ d))"
  have "length (digits (n mod 10 ^ d)) \<le> d" using assms by (simp add: digits_length)
  then have "length ?fp = d" by (simp add: zero_pad_def)
  moreover have "?ip \<noteq> []" by (subst digits.simps) simp
  moreover have "set ?ip \<subseteq> set ''0123456789''" by (rule digits_decimal)
  moreover have "set ?fp \<subseteq> set ''0123456789''"
    using digits_decimal [of "n mod 10 ^ d"] by (auto simp: zero_pad_def)
  moreover have "format_fixed d x = (if x < 0 then ''-'' else '''') @ ?ip @ ''.'' @ ?fp"
    by (simp add: format_fixed_def n_def Let_def)
  ultimately show ?thesis by blast
qed

lemma format_size_cases:
  "format_size bytes =
     (if bytes < 1024 then format_fixed 2 bytes @ ''B''
      else if bytes < 1024 ^ 2 then format_fixed 2 (bytes / 1024) @ ''KB''
      else if bytes < 1024 ^ 3 then format_fixed 2 (bytes / 1024 ^ 2) @ ''MB''
      else if bytes < 1024 ^ 4 then format_fixed 2 (bytes / 1024 ^ 3) @ ''GB''
      else format_fixed 2 (bytes / 1024 ^ 4) @ ''TB'')"
  by (simp add: format_size_def divide_less_eq)

text \<open>
  C6: \<^verbatim>\<open>format_size\<close> walks the units B, KB, MB, GB, dividing by 1024 at each step,
  and stops at the first unit where the value is below 1024; past GB it prints the value
  in TB.  The value is printed with two decimals: for a count that is not negative, the
  result is digits, a point, two digits and the unit.  1023 gives 1023.00B, 1024 gives
  1.00KB and 1048576 gives 1.00MB.
\<close>

theorem format_size_ladder:
  "format_size bytes =
     (if bytes < 1024 then format_fixed 2 bytes @ ''B''
      else if bytes < 1024 ^ 2 then format_fixed 2 (bytes / 1024) @ ''KB''
      else if bytes < 1024 ^ 3 then format_fixed 2 (bytes / 1024 ^ 2) @ ''MB''
      else if bytes < 1024 ^ 4 then format_fixed 2 (bytes / 1024 ^ 3) @ ''GB''
      else format_fixed 2 (bytes / 1024 ^ 4) @ ''TB'')
   \<and> (0 \<le> bytes \<longrightarrow>
        (\<exists>ip fp unit. format_size bytes = ip @ ''.'' @ fp @ unit
           \<and> ip \<noteq> [] \<and> set ip \<subseteq> set ''0123456789''
           \<and> length fp = 2 \<and> set fp \<subseteq> set ''0123456789''
           \<and> unit \<in> set [''B'', ''KB'', ''MB'', ''GB'', ''TB'']))
   \<and> format_size 1023 = ''1023.00B''
   \<and> format_size 1024 = ''1.00KB''
   \<and> format_size 1048576 = ''1.00MB''"
proof (intro conjI impI)
  show cases: "format_size bytes =
     (if bytes < 1024 then format_fixed 2 bytes @ ''B''
      else if bytes < 1024 ^ 2 then format_fixed 2 (bytes / 1024) @ ''KB''
      else if bytes < 1024 ^ 3 then format_fixed 2 (bytes / 1024 ^ 2) @ ''MB''
      else if bytes < 1024 ^ 4 then format_fixed 2 (bytes / 1024 ^ 3) @ ''GB''
      else format_fixed 2 (bytes / 1024 ^ 4) @ ''TB'')"
    by (rule format_size_cases)
  show "format_size 1023 = ''1023.00B''"
    by (simp add: format_size_def format_eval)
  show "format_size 1024 = ''1.00KB''"
    by (simp add: format_size_def format_eval)
  show "format_size 1048576 = ''1.00MB''"
    by (simp add: format_size_def format_eval)
  assume nonneg: "0 \<le> bytes"
  have shape: "\<exists>ip fp. format_fixed 2 y @ u = ip @ ''.'' @ fp @ u
           \<and> ip \<noteq> [] \<and> set ip \<subseteq> set ''0123456789''
           \<and> length fp = 2 \<and> set fp \<subseteq> set ''0123456789''" if "0 \<le> y" for y u
  proof -
    from format_fixed_shape [of 2 y] that obtain ip fp
      where "format_fixed 2 y = ip @ ''.'' @ fp" "ip \<noteq> []" "length fp = 2"
        "set ip \<subseteq> set ''0123456789''" "set fp \<subseteq> set ''0123456789''"
      by (auto simp: not_less [symmetric])
    then show ?thesis by (intro exI [of _ ip] exI [of _ fp]) simp
  qed
  consider (b) "format_size bytes = format_fixed 2 bytes @ ''B''"
    | (kb) "format_size bytes = format_fixed 2 (bytes / 1024) @ ''KB''"
    | (mb) "format_size bytes = format_fixed 2 (bytes / 1024 ^ 2) @ ''MB''"
    | (gb) "format_size bytes = format_fixed 2 (bytes / 1024 ^ 3) @ ''GB''"
    | (tb) "format_size bytes = format_fixed 2 (bytes / 1024 ^ 4) @ ''TB''"
    using cases by (auto split: if_splits)
  then show "\<exists>ip fp unit. format_size bytes = ip @ ''.'' @ fp @ unit
           \<and> ip \<noteq> [] \<and> set ip \<subseteq> set ''0123456789''
           \<and> length fp = 2 \<and> set fp \<subseteq> set ''0123456789''
           \<and> unit \<in> set [''B'', ''KB'', ''MB'', ''GB'', ''TB'']"
  proof cases
    case b
    with shape [of bytes "''B''"] nonneg show ?thesis by (metis list.set_intros(1))
  next
    case kb
    from nonneg have "0 \<le> bytes / 1024" by simp
    from shape [OF this, of "''KB''"] kb show ?thesis
      by (metis list.set_intros(1) list.set_intros(2))
  next
    case mb
    from nonneg have "0 \<le> bytes / 1024 ^ 2" by simp
    from shape [OF this, of "''MB''"] mb show ?thesis
      by (metis list.set_intros(1) list.set_intros(2))
  next
    case gb
    from nonneg have "0 \<le> bytes / 1024 ^ 3" by simp
    from shape [OF this, of "''GB''"] gb show ?thesis
      by (metis list.set_intros(1) list.set_intros(2))
  next
    case tb
    from nonneg have "0 \<le> bytes / 1024 ^ 4" by simp
    from shape [OF this, of "''TB''"] tb show ?thesis
      by (metis list.set_intros(1) list.set_intros(2))
  qed
qed

theorem format_size_ladder_witness:
  "format_size 1536 = ''1.50KB''
   \<and> format_size 1048575 = ''1024.00KB''
   \<and> format_size 3221225472 = ''3.00GB''
   \<and> format_size (5000 * 1024 ^ 4) = ''5000.00TB''"
proof (intro conjI)
  show "format_size 1536 = ''1.50KB''"
    using format_size_ladder [of 1536] by (simp add: format_eval)
  show "format_size 1048575 = ''1024.00KB''"
    using format_size_ladder [of 1048575] by (simp add: format_eval)
  show "format_size 3221225472 = ''3.00GB''"
    using format_size_ladder [of 3221225472] by (simp add: format_eval)
  show "format_size (5000 * 1024 ^ 4) = ''5000.00TB''"
    using format_size_ladder [of "5000 * 1024 ^ 4"] by (simp add: format_eval)
qed

text \<open>
  C7: \<^verbatim>\<open>format_price\<close> gives \<^verbatim>\<open>No data\<close> for zero, and for a positive price the
  dollar sign followed by the price with eight decimals below 0.01, with four decimals
  below 1, and with two decimals from 1 on: digits, a point, and eight, four or two
  digits.  0.005 gives the eight-decimal form, 0.5 gives $0.5000 and 5.5 gives $5.50.
\<close>

theorem format_price_spec:
  "format_price 0 = ''No data''
   \<and> (0 < x \<and> x < float_0_01 \<longrightarrow> format_price x = ''$'' @ format_fixed 8 x)
   \<and> (float_0_01 \<le> x \<and> x < 1 \<longrightarrow> format_price x = ''$'' @ format_fixed 4 x)
   \<and> (1 \<le> x \<longrightarrow> format_price x = ''$'' @ format_fixed 2 x)
   \<and> (0 < x \<longrightarrow>
        (\<exists>ip fp. format_price x = ''$'' @ ip @ ''.'' @ fp
           \<and> ip \<noteq> [] \<and> set ip \<subseteq> set ''0123456789''
           \<and> length fp = (if x < float_0_01 then 8 else if x < 1 then 4 else 2)
           \<and> set fp \<subseteq> set ''0123456789''))
   \<and> format_price (5764607523034235 / 1152921504606846976) = ''$0.00500000''
   \<and> format_price (1 / 2) = ''$0.5000''
   \<and> format_price (11 / 2) = ''$5.50''"
proof (intro conjI impI)
  show "format_price 0 = ''No data''" by (simp add: format_price_def)
  show "format_price x = ''$'' @ format_fixed 8 x"
    if "0 < x \<and> x < float_0_01"
    using that by (simp add: format_price_def)
  show "format_price x = ''$'' @ format_fixed 4 x"
    if "float_0_01 \<le> x \<and> x < 1"
    using that by (auto simp: format_price_def float_0_01_def)
  show "format_price x = ''$'' @ format_fixed 2 x" if "1 \<le> x"
    using that by (auto simp: format_price_def float_0_01_def)
  show "format_price (5764607523034235 / 1152921504606846976) = ''$0.00500000''"
    by (simp add: format_price_def float_0_01_def format_eval)
  show "format_price (1 / 2) = ''$0.5000''"
    by (simp add: format_price_def float_0_01_def format_eval)
  show "format_price (11 / 2) = ''$5.50''"
    by (simp add: format_price_def float_0_01_def format_eval)
  assume pos: "0 < x"
  define d :: nat where "d = (if x < float_0_01 then 8 else if x < 1 then 4 else 2)"
  have d: "0 < d" by (simp add: d_def)
  from pos have "format_price x = ''$'' @ format_fixed d x"
    by (simp add: format_price_def d_def)
  moreover from format_fixed_shape [OF d, of x] pos obtain ip fp
    where "format_fixed d x = ip @ ''.'' @ fp" "ip \<noteq> []" "length fp = d"
      "set ip \<subseteq> set ''0123456789''" "set fp \<subseteq> set ''0123456789''"
    by (auto simp: not_less [symmetric])
  ultimately show "\<exists>ip fp. format_price x = ''$'' @ ip @ ''.'' @ fp
           \<and> ip \<noteq> [] \<and> set ip \<subseteq> set ''0123456789''
           \<and> length fp = (if x < float_0_01 then 8 else if x < 1 then 4 else 2)
           \<and> set fp \<subseteq> set ''0123456789''"
    unfolding d_def by (intro exI [of _ ip] exI [of _ fp]) simp
qed

theorem format_price_spec_witness:
  "format_price (1 / 1024) = ''$0.00097656''
   \<and> format_price float_0_01 = ''$0.0100''
   \<and> format_price (3 / 4) = ''$0.7500''
   \<and> format_price 1 = ''$1.00''
   \<and> format_price (1999 / 8) = ''$249.88''"
proof (intro conjI)
  show "format_price (1 / 1024) = ''$0.00097656''"
    using format_price_spec [of "1 / 1024"] by (simp add: float_0_01_def format_eval)
  show "format_price float_0_01 = ''$0.0100''"
    using format_price_spec [of float_0_01] by (simp add: float_0_01_def format_eval)
  show "format_price (3 / 4) = ''$0.7500''"
    using format_price_spec [of "3 / 4"] by (simp add: float_0_01_def format_eval)
  show "format_price 1 = ''$1.00''"
    using format_price_spec [of 1] by (simp add: float_0_01_def format_eval)
  show "format_price (1999 / 8) = ''$249.88''"
    using format_price_spec [of "1999 / 8"] by (simp add: float_0_01_def format_eval)
qed

text \<open>
  C9: the two formatters of percentages treat zero differently.
  \<^verbatim>\<open>format_percentage\<close> gives \<^verbatim>\<open>N/A\<close> for zero, and otherwise the percentage
  with two decimals, behind a plus sign when it is positive (the minus sign of a
  negative one comes with the number).  The 24h-change column of the display gives
  \<^verbatim>\<open>0.00%\<close> for a zero change, between two reset codes; it is what a row shows unless
  its recommendation is NEW LISTING.
\<close>

theorem percentage_zero_semantics:
  "format_percentage 0 = ''N/A''
   \<and> (0 < x \<longrightarrow> format_percentage x = ''+'' @ format_fixed 2 x @ ''%'')
   \<and> (x < 0 \<longrightarrow> format_percentage x = format_fixed 2 x @ ''%''
                 \<and> take 1 (format_fixed 2 x) = ''-'')
   \<and> change_column cm 0 = style_reset_all cm @ ''0.00%'' @ style_reset_all cm
   \<and> (change_24h s = 0 \<and> recommendation s \<noteq> Some ''NEW LISTING'' \<longrightarrow>
        snd (colour_and_change cm s) = style_reset_all cm @ ''0.00%'' @ style_reset_all cm)
   \<and> format_percentage 0 \<noteq> ''0.00%''"
  by (auto simp: format_percentage_def change_column_def colour_and_change_def Let_def
      format_fixed_def)

theorem percentage_zero_semantics_witness:
  "format_percentage 0 = ''N/A''
   \<and> format_percentage (16 / 5) = ''+3.20%''
   \<and> format_percentage (- (5 / 4)) = ''-1.25%''
   \<and> snd (colour_and_change example_colours
        \<lparr>timestamp = Some ''2025-01-01T00:00:00'', name = Some ''Foo'', symbol = Some ''FOO'',
         price = 1 / 2, change_24h = 0, recommendation = Some ''HOLD''\<rparr>)
       = CHR 0x1B # ''[0m'' @ ''0.00%'' @ CHR 0x1B # ''[0m''"
proof (intro conjI)
  show "format_percentage 0 = ''N/A''"
    using percentage_zero_semantics [of 0] by simp
  show "format_percentage (16 / 5) = ''+3.20%''"
    using percentage_zero_semantics [of "16 / 5"] by (simp add: format_eval)
  show "format_percentage (- (5 / 4)) = ''-1.25%''"
    using percentage_zero_semantics [of "- (5 / 4)"] by (simp add: format_eval)
  show "snd (colour_and_change example_colours
        \<lparr>timestamp = Some ''2025-01-01T00:00:00'', name = Some ''Foo'', symbol = Some ''FOO'',
         price = 1 / 2, change_24h = 0, recommendation = Some ''HOLD''\<rparr>)
       = CHR 0x1B # ''[0m'' @ ''0.00%'' @ CHR 0x1B # ''[0m''"
    using percentage_zero_semantics [of 0
        example_colours
        "\<lparr>timestamp = Some ''2025-01-01T00:00:00'', name = Some ''Foo'', symbol = Some ''FOO'',
         price = 1 / 2, change_24h = 0, recommendation = Some ''HOLD''\<rparr>"]
    by (simp add: example_colours_def)
qed

section \<open>Reading the rows\<close>

lemma float_field_errors:
  "float_field f row k = Inl e \<Longrightarrow> e = ValueError \<or> e = TypeError"
  by (auto simp: float_field_def split: option.splits)

lemma parse_numbers_total: "\<exists>pc. parse_numbers f row = Inr pc"
proof (cases "float_field f row ''price''")
  case (Inl e)
  with float_field_errors [OF Inl] show ?thesis by (auto simp: parse_numbers_def)
next
  case p: (Inr p)
  show ?thesis
  proof (cases "float_field f row ''change_24h''")
    case (Inl e)
    with p float_field_errors [OF Inl] show ?thesis by (auto simp: parse_numbers_def)
  next
    case (Inr c)
    with p show ?thesis by (simp add: parse_numbers_def)
  qed
qed

lemma parse_row_total: "\<exists>s. parse_row f row = Inr s"
proof -
  obtain p c where "parse_numbers f row = Inr (p, c)"
    using parse_numbers_total [of f row] by fastforce
  then show ?thesis by (simp add: parse_row_def)
qed

lemma read_signals_append:
  "\<exists>new. read_signals f rows signals = Inr (signals @ new)
      \<and> list_all2 (\<lambda>row s. parse_row f row = Inr s) rows new"
proof (induction rows arbitrary: signals)
  case Nil
  then show ?case by simp
next
  case (Cons row rows)
  obtain s where s: "parse_row f row = Inr s" using parse_row_total by blast
  from Cons [of "signals @ [s]"] obtain new
    where "read_signals f rows (signals @ [s]) = Inr ((signals @ [s]) @ new)"
      and "list_all2 (\<lambda>row s. parse_row f row = Inr s) rows new"
    by blast
  with s show ?case by (intro exI [of _ "s # new"]) simp
qed

lemma parse_row_malformed_price:
  assumes "row ''price'' = Some (Some s)" and "f s = None"
  shows "parse_row f row =
           Inr \<lparr>timestamp = row_get row ''timestamp'', name = row_get row ''name'',
                symbol = row_get row ''symbol'', price = 0, change_24h = 0,
                recommendation = row_get row ''recommendation''\<rparr>"
  using assms by (simp add: parse_row_def parse_numbers_def float_field_def)

lemma parse_row_malformed_change:
  assumes "float_field f row ''price'' = Inr x"
    and "row ''change_24h'' = Some (Some t)" and "f t = None"
  shows "parse_row f row =
           Inr \<lparr>timestamp = row_get row ''timestamp'', name = row_get row ''name'',
                symbol = row_get row ''symbol'', price = 0, change_24h = 0,
                recommendation = row_get row ''recommendation''\<rparr>"
  using assms by (simp add: parse_row_def parse_numbers_def float_field_def)

lemma parse_row_numbers:
  assumes "float_field f row ''price'' = Inr x" and "float_field f row ''change_24h'' = Inr y"
  shows "parse_row f row =
           Inr \<lparr>timestamp = row_get row ''timestamp'', name = row_get row ''name'',
                symbol = row_get row ''symbol'', price = x, change_24h = y,
                recommendation = row_get row ''recommendation''\<rparr>"
  using assms by (simp add: parse_row_def parse_numbers_def)

lemmas row_eval = make_row_def example_float_def row_get_def float_field_def

text \<open>
  C4: a row whose price is a string that \<^verbatim>\<open>float\<close> rejects is read with price 0 (and
  change 0), without an exception, and keeps its other fields.  Reading never raises
  and drops no row: the list of signals has one signal for every row, in the order of
  the rows.
\<close>

theorem malformed_price_kept:
  "(row ''price'' = Some (Some s) \<and> f s = None \<longrightarrow>
      parse_row f row =
        Inr \<lparr>timestamp = row_get row ''timestamp'', name = row_get row ''name'',
             symbol = row_get row ''symbol'', price = 0, change_24h = 0,
             recommendation = row_get row ''recommendation''\<rparr>)
   \<and> (\<exists>signals. read_signals f rows [] = Inr signals
         \<and> length signals = length rows
         \<and> (\<forall>i<length rows. parse_row f (rows ! i) = Inr (signals ! i)))"
proof (intro conjI impI)
  assume "row ''price'' = Some (Some s) \<and> f s = None"
  then show "parse_row f row =
        Inr \<lparr>timestamp = row_get row ''timestamp'', name = row_get row ''name'',
             symbol = row_get row ''symbol'', price = 0, change_24h = 0,
             recommendation = row_get row ''recommendation''\<rparr>"
    by (simp add: parse_row_malformed_price)
next
  from read_signals_append [of f rows "[]"] obtain new
    where "read_signals f rows [] = Inr new"
      and "list_all2 (\<lambda>row s. parse_row f row = Inr s) rows new"
    by auto
  then show "\<exists>signals. read_signals f rows [] = Inr signals
         \<and> length signals = length rows
         \<and> (\<forall>i<length rows. parse_row f (rows ! i) = Inr (signals ! i))"
    by (auto simp: list_all2_conv_all_nth)
qed

theorem malformed_price_kept_witness:
  "read_signals example_float
     [make_row ''2025-01-01T00:00:00'' ''Foo'' ''FOO'' ''0.5'' ''3.2'' ''BUY'',
      make_row ''2025-01-01T00:05:00'' ''Bar'' ''BAR'' ''n/a'' ''1.5'' ''SELL''] []
   = Inr [\<lparr>timestamp = Some ''2025-01-01T00:00:00'', name = Some ''Foo'', symbol = Some ''FOO'',
           price = 1 / 2, change_24h = 3602879701896397 / 1125899906842624,
           recommendation = Some ''BUY''\<rparr>,
          \<lparr>timestamp = Some ''2025-01-01T00:05:00'', name = Some ''Bar'', symbol = Some ''BAR'',
           price = 0, change_24h = 0, recommendation = Some ''SELL''\<rparr>]"
proof -
  let ?foo = "make_row ''2025-01-01T00:00:00'' ''Foo'' ''FOO'' ''0.5'' ''3.2'' ''BUY''"
  let ?bar = "make_row ''2025-01-01T00:05:00'' ''Bar'' ''BAR'' ''n/a'' ''1.5'' ''SELL''"
  have bar: "parse_row example_float ?bar =
      Inr \<lparr>timestamp = Some ''2025-01-01T00:05:00'', name = Some ''Bar'', symbol = Some ''BAR'',
           price = 0, change_24h = 0, recommendation = Some ''SELL''\<rparr>"
    using malformed_price_kept [of ?bar "''n/a''" example_float]
    by (simp add: row_eval)
  have foo: "parse_row example_float ?foo =
      Inr \<lparr>timestamp = Some ''2025-01-01T00:00:00'', name = Some ''Foo'', symbol = Some ''FOO'',
           price = 1 / 2, change_24h = 3602879701896397 / 1125899906842624,
           recommendation = Some ''BUY''\<rparr>"
    by (simp add: parse_row_def parse_numbers_def row_eval)
  from foo bar show ?thesis by simp
qed

text \<open>
  C10: the two conversions stand in one \<^verbatim>\<open>try\<close> block.  When the price converts
  and the 24h change is a string that \<^verbatim>\<open>float\<close> rejects, the row is stored with
  price 0 and change 0: the converted price is lost.  (When both convert, both are
  stored.)
\<close>

theorem malformed_change_discards_price:
  "(row ''price'' = Some (Some s) \<and> f s = Some x
      \<and> row ''change_24h'' = Some (Some t) \<and> f t = None \<longrightarrow>
      parse_row f row =
        Inr \<lparr>timestamp = row_get row ''timestamp'', name = row_get row ''name'',
             symbol = row_get row ''symbol'', price = 0, change_24h = 0,
             recommendation = row_get row ''recommendation''\<rparr>)
   \<and> (row ''price'' = Some (Some s) \<and> f s = Some x
      \<and> row ''change_24h'' = Some (Some t) \<and> f t = Some y \<longrightarrow>
      parse_row f row =
        Inr \<lparr>timestamp = row_get row ''timestamp'', name = row_get row ''name'',
             symbol = row_get row ''symbol'', price = x, change_24h = y,
             recommendation = row_get row ''recommendation''\<rparr>)"
proof (intro conjI impI)
  assume a: "row ''price'' = Some (Some s) \<and> f s = Some x
      \<and> row ''change_24h'' = Some (Some t) \<and> f t = None"
  then have "float_field f row ''price'' = Inr x" by (simp add: float_field_def)
  with a show "parse_row f row =
        Inr \<lparr>timestamp = row_get row ''timestamp'', name = row_get row ''name'',
             symbol = row_get row ''symbol'', price = 0, change_24h = 0,
             recommendation = row_get row ''recommendation''\<rparr>"
    by (simp add: parse_row_malformed_change)
next
  assume a: "row ''price'' = Some (Some s) \<and> f s = Some x
      \<and> row ''change_24h'' = Some (Some t) \<and> f t = Some y"
  then have "float_field f row ''price'' = Inr x" "float_field f row ''change_24h'' = Inr y"
    by (simp_all add: float_field_def)
  then show "parse_row f row =
        Inr \<lparr>timestamp = row_get row ''timestamp'', name = row_get row ''name'',
             symbol = row_get row ''symbol'', price = x, change_24h = y,
             recommendation = row_get row ''recommendation''\<rparr>"
    by (rule parse_row_numbers)
qed

theorem malformed_change_discards_price_witness:
  "example_float ''1.5'' = Some (3 / 2) \<and> example_float ''+-'' = None
   \<and> parse_row example_float
       (make_row ''2025-01-01T00:05:00'' ''Bar'' ''BAR'' ''1.5'' ''+-'' ''SELL'')
     = Inr \<lparr>timestamp = Some ''2025-01-01T00:05:00'', name = Some ''Bar'', symbol = Some ''BAR'',
            price = 0, change_24h = 0, recommendation = Some ''SELL''\<rparr>"
  using malformed_change_discards_price
    [of "make_row ''2025-01-01T00:05:00'' ''Bar'' ''BAR'' ''1.5'' ''+-'' ''SELL''"
        "''1.5''" example_float "3 / 2" "''+-''"]
  by (simp add: row_eval)

section \<open>The refresh and its loop\<close>

lemma is_sleep_simps [simp]:
  "is_sleep (Sleep n)" "\<not> is_sleep Clear" "\<not> is_sleep (Print l)" "\<not> is_sleep (PrintError e)"
  by (simp_all add: is_sleep_def)

lemma read_and_display_signals_total: "\<exists>evs. read_and_display_signals f cm file = Inr evs"
  by (cases "refresh_body f cm file")
     (auto simp: read_and_display_signals_def split: option.splits)

lemma print_signals_no_sleep:
  "print_signals cm signals = (evs, r) \<Longrightarrow> \<forall>ev\<in>set evs. \<not> is_sleep ev"
proof (induction signals arbitrary: evs r)
  case Nil
  then show ?case by simp
next
  case (Cons s signals)
  then show ?case
    by (cases "signal_line cm s"; cases "print_signals cm signals")
       auto
qed

lemma refresh_body_no_sleep:
  assumes "refresh_body f cm file = (evs, r)"
  shows "\<forall>ev\<in>set evs. \<not> is_sleep ev"
proof (cases "bind_result file (\<lambda>rows. bind_result (read_signals f rows []) latest_signals)")
  case (Inl e)
  with assms show ?thesis by (simp add: refresh_body_def)
next
  case (Inr latest)
  obtain evs' r' where p: "print_signals cm (take 20 latest) = (evs', r')"
    by (cases "print_signals cm (take 20 latest)")
  then have "\<forall>ev\<in>set evs'. \<not> is_sleep ev" by (rule print_signals_no_sleep)
  moreover have "\<forall>ev\<in>set header. \<not> is_sleep ev" by (simp add: header_def)
  ultimately show ?thesis
    using assms Inr p by (cases r') (auto simp: refresh_body_def)
qed

lemma read_and_display_signals_no_sleep:
  assumes "read_and_display_signals f cm file = Inr evs"
  shows "filter is_sleep evs = []"
proof -
  obtain evs' r where b: "refresh_body f cm file = (evs', r)"
    by (cases "refresh_body f cm file")
  then have "\<forall>ev\<in>set evs'. \<not> is_sleep ev" by (rule refresh_body_no_sleep)
  with assms b have "\<forall>ev\<in>set evs. \<not> is_sleep ev"
    by (cases r) (auto simp: read_and_display_signals_def split: if_splits)
  then show ?thesis by (simp add: filter_empty_conv)
qed

lemma main_trace:
  "main f cm files =
     (concat (map (\<lambda>file. (case read_and_display_signals f cm file of
                              Inl _ \<Rightarrow> [] | Inr evs \<Rightarrow> evs) @ [Sleep 5]) files), None)"
proof (induction files)
  case Nil
  then show ?case by simp
next
  case (Cons x xs)
  obtain evs where "read_and_display_signals f cm x = Inr evs"
    using read_and_display_signals_total by blast
  with Cons show ?case by simp
qed

lemma main_sleeps: "length (filter is_sleep (fst (main f cm files))) = length files"
proof (induction files)
  case Nil
  then show ?case by simp
next
  case (Cons x xs)
  obtain evs where evs: "read_and_display_signals f cm x = Inr evs"
    using read_and_display_signals_total by blast
  obtain rest r where rest: "main f cm xs = (rest, r)" by (cases "main f cm xs")
  from evs have "filter is_sleep evs = []" by (rule read_and_display_signals_no_sleep)
  with Cons evs rest show ?case by simp
qed

text \<open>
  C5: when the file is missing, a refresh prints the one line
  \<^verbatim>\<open>Error: analysis_results.csv not found\<close> and returns; when opening or reading
  raises another exception, it prints the line of that exception and returns; and it
  returns whatever the file holds.  So no refresh ends the loop of \<^verbatim>\<open>main\<close>: over
  any sequence of states of the file, the loop does one refresh and one sleep of five
  seconds for each of them, and is still running.
\<close>

theorem refresh_never_raises:
  "read_and_display_signals f cm (Inl FileNotFoundError)
     = Inr [Print ''Error: analysis_results.csv not found'']
   \<and> CHR 0x0A \<notin> set ''Error: analysis_results.csv not found''
   \<and> (e \<noteq> FileNotFoundError \<longrightarrow> read_and_display_signals f cm (Inl e) = Inr [PrintError e])
   \<and> (\<exists>evs. read_and_display_signals f cm file = Inr evs)
   \<and> main f cm files =
       (concat (map (\<lambda>file. (case read_and_display_signals f cm file of
                                Inl _ \<Rightarrow> [] | Inr evs \<Rightarrow> evs) @ [Sleep 5]) files), None)
   \<and> length (filter is_sleep (fst (main f cm files))) = length files"
proof (intro conjI impI)
  show "read_and_display_signals f cm (Inl FileNotFoundError)
     = Inr [Print ''Error: analysis_results.csv not found'']"
    by (simp add: read_and_display_signals_def refresh_body_def)
  show "CHR 0x0A \<notin> set ''Error: analysis_results.csv not found''" by simp
  show "read_and_display_signals f cm (Inl e) = Inr [PrintError e]" if "e \<noteq> FileNotFoundError"
    using that by (simp add: read_and_display_signals_def refresh_body_def)
  show "\<exists>evs. read_and_display_signals f cm file = Inr evs"
    by (rule read_and_display_signals_total)
  show "main f cm files =
       (concat (map (\<lambda>file. (case read_and_display_signals f cm file of
                                Inl _ \<Rightarrow> [] | Inr evs \<Rightarrow> evs) @ [Sleep 5]) files), None)"
    by (rule main_trace)
  show "length (filter is_sleep (fst (main f cm files))) = length files"
    by (rule main_sleeps)
qed

lemma refresh_one_row:
  "read_and_display_signals example_float example_colours
     (Inr [make_row ''2025-01-01T00:00:00'' ''Foo'' ''FOO'' ''0.5'' ''3.2'' ''BUY''])
   = Inr (header @
       [Print (fore_green example_colours @ ljust 20 ''Foo'' @ '' '' @ ljust 15 ''$0.5000''
               @ '' '' @ ljust 12 ''BUY'' @ style_reset_all example_colours @ '' ''
               @ ljust 15 (fore_green example_colours @ ''+3.20%''
                           @ style_reset_all example_colours) @ '' 12:03:05''),
        Print (newline @ replicate 100 (CHR ''='')) ])"
  by (simp add: read_and_display_signals_def refresh_body_def parse_row_def parse_numbers_def
      row_eval latest_signals_def sort_signals_def signal_line_def colour_and_change_def
      change_column_def ljust_cell_def format_price_def float_0_01_def example_colours_def
      format_eval)

lemma refresh_short_row:
  "read_and_display_signals example_float example_colours
     (Inr [[''timestamp'' \<mapsto> Some ''2025-01-01T00:10:00'', ''name'' \<mapsto> Some ''Baz'',
            ''symbol'' \<mapsto> None, ''price'' \<mapsto> None, ''change_24h'' \<mapsto> None,
            ''recommendation'' \<mapsto> None]])
   = Inr (header @ [PrintError TypeError])"
  by (simp add: read_and_display_signals_def refresh_body_def parse_row_def parse_numbers_def
      row_eval latest_signals_def sort_signals_def signal_line_def colour_and_change_def
      change_column_def ljust_cell_def format_price_def float_0_01_def example_colours_def
      ljust_def)

theorem refresh_never_raises_witness:
  "main example_float example_colours
     [Inl FileNotFoundError,
      Inr [make_row ''2025-01-01T00:00:00'' ''Foo'' ''FOO'' ''0.5'' ''3.2'' ''BUY''],
      Inr [[''timestamp'' \<mapsto> Some ''2025-01-01T00:10:00'', ''name'' \<mapsto> Some ''Baz'',
            ''symbol'' \<mapsto> None, ''price'' \<mapsto> None, ''change_24h'' \<mapsto> None,
            ''recommendation'' \<mapsto> None]],
      Inl OtherException]
   = ([Print ''Error: analysis_results.csv not found'', Sleep 5] @ header @
      [Print (fore_green example_colours @ ljust 20 ''Foo'' @ '' '' @ ljust 15 ''$0.5000''
               @ '' '' @ ljust 12 ''BUY'' @ style_reset_all example_colours @ '' ''
               @ ljust 15 (fore_green example_colours @ ''+3.20%''
                           @ style_reset_all example_colours) @ '' 12:03:05''),
       Print (newline @ replicate 100 (CHR ''='')), Sleep 5] @ header @
      [PrintError TypeError, Sleep 5, PrintError OtherException, Sleep 5], None)"
  using refresh_never_raises [of example_float example_colours OtherException
      "Inl OtherException"
      "[Inl FileNotFoundError,
        Inr [make_row ''2025-01-01T00:00:00'' ''Foo'' ''FOO'' ''0.5'' ''3.2'' ''BUY''],
        Inr [[''timestamp'' \<mapsto> Some ''2025-01-01T00:10:00'', ''name'' \<mapsto> Some ''Baz'',
              ''symbol'' \<mapsto> None, ''price'' \<mapsto> None, ''change_24h'' \<mapsto> None,
              ''recommendation'' \<mapsto> None]],
        Inl OtherException]"]
  by (simp add: refresh_one_row refresh_short_row)

section \<open>The latest signal of every token\<close>

lemma find_filter: "find P (filter Q xs) = find (\<lambda>x. Q x \<and> P x) xs"
  by (induction xs) auto

lemma find_Some_conj:
  "find P xs = Some r \<Longrightarrow> Q r \<Longrightarrow> find (\<lambda>x. Q x \<and> P x) xs = Some r"
  by (induction xs) (auto split: if_splits)

lemma find_distinct_key:
  "distinct (map key ys) \<Longrightarrow> r \<in> set ys \<Longrightarrow> find (\<lambda>p. key p = key r) ys = Some r"
  by (induction ys) (auto simp: image_iff)

lemma find_first_descending:
  fixes key :: "'a \<Rightarrow> 'k::linorder"
  assumes "sorted_wrt (\<lambda>a b. key b \<le> key a) xs" and "find P xs = Some r"
    and "s \<in> set xs" and "P s"
  shows "key s \<le> key r"
  using assms
proof (induction xs)
  case Nil
  then show ?case by simp
next
  case (Cons x xs)
  show ?case
  proof (cases "P x")
    case True
    with Cons.prems(2) have "r = x" by simp
    with Cons.prems(1,3) show ?thesis by auto
  next
    case False
    with Cons.prems have "find P xs = Some r" "s \<in> set xs" "sorted_wrt (\<lambda>a b. key b \<le> key a) xs"
      by auto
    with Cons.IH Cons.prems(4) show ?thesis by blast
  qed
qed

text \<open>What the reversed stable sort does.\<close>

lemma reversed_sort_set: "set (rev (sort_key key (rev xs))) = set xs"
  by simp

lemma reversed_sort_descending:
  "sorted_wrt (\<lambda>a b. key b \<le> key a) (rev (sort_key key (rev xs)))"
proof -
  have "sorted (map key (sort_key key (rev xs)))" by (rule sorted_sort_key)
  then have "sorted_wrt (\<lambda>a b. key a \<le> key b) (sort_key key (rev xs))"
    by (simp add: sorted_map)
  then show ?thesis by (simp add: sorted_wrt_rev)
qed

lemma reversed_sort_stable:
  "filter (\<lambda>y. key y = k) (rev (sort_key key (rev xs))) = filter (\<lambda>y. key y = k) xs"
proof -
  have "filter (\<lambda>y. key y = k) (rev (sort_key key (rev xs)))
      = rev (filter (\<lambda>y. key y = k) (sort_key key (rev xs)))"
    by (simp add: rev_filter)
  also have "\<dots> = rev (filter (\<lambda>y. key y = k) (rev xs))"
    by (simp add: sort_key_stable)
  also have "\<dots> = filter (\<lambda>y. key y = k) xs"
    by (simp add: rev_filter)
  finally show ?thesis .
qed

lemma sort_signals_Inr:
  assumes "sort_signals signals = Inr ordered"
  shows "set ordered = set signals"
    and "sorted_wrt (\<lambda>a b. timestamp_key b \<le> timestamp_key a) ordered"
    and "filter (\<lambda>s. timestamp_key s = t) ordered = filter (\<lambda>s. timestamp_key s = t) signals"
proof -
  consider (short) "length signals < 2" "ordered = signals"
    | (long) "ordered = rev (sort_key timestamp_key (rev signals))"
    using assms by (auto simp: sort_signals_def split: if_splits)
  then have "set ordered = set signals
      \<and> sorted_wrt (\<lambda>a b. timestamp_key b \<le> timestamp_key a) ordered
      \<and> filter (\<lambda>s. timestamp_key s = t) ordered = filter (\<lambda>s. timestamp_key s = t) signals"
  proof cases
    case short
    then have "signals = [] \<or> (\<exists>s. signals = [s])"
      by (cases signals) (auto simp: length_Suc_conv)
    with short(2) show ?thesis by auto
  next
    case long
    then show ?thesis
      by (simp only: reversed_sort_set reversed_sort_descending reversed_sort_stable simp_thms)
  qed
  then show "set ordered = set signals"
    and "sorted_wrt (\<lambda>a b. timestamp_key b \<le> timestamp_key a) ordered"
    and "filter (\<lambda>s. timestamp_key s = t) ordered = filter (\<lambda>s. timestamp_key s = t) signals"
    by blast+
qed

lemma sort_signals_returns:
  "(\<exists>ordered. sort_signals signals = Inr ordered)
     \<longleftrightarrow> length signals < 2 \<or> (\<forall>s\<in>set signals. timestamp s \<noteq> None)"
  by (auto simp: sort_signals_def list_ex_iff)

lemma latest_signals_Inr:
  "latest_signals signals = Inr latest \<longleftrightarrow>
     (\<exists>ordered. sort_signals signals = Inr ordered \<and> latest = first_by name ordered {})"
  by (auto simp: latest_signals_def bind_result_eq_Inr keep_first_first_by)

lemma latest_signals_entry:
  assumes "latest_signals signals = Inr latest" and "r \<in> set latest"
  shows "r \<in> set signals"
    and "\<forall>s\<in>set signals. name s = name r \<longrightarrow> timestamp_key s \<le> timestamp_key r"
    and "find (\<lambda>s. timestamp_key s = timestamp_key r \<and> name s = name r) signals = Some r"
proof -
  from assms(1) obtain ordered where ord: "sort_signals signals = Inr ordered"
    and latest: "latest = first_by name ordered {}"
    by (auto simp: latest_signals_Inr)
  note s = sort_signals_Inr [OF ord]
  from assms(2) latest have "r \<in> set ordered" using first_by_subset by fastforce
  with s(1) show "r \<in> set signals" by simp
  have "find (\<lambda>p. name p = name r) latest = Some r"
    using assms(2) latest by (intro find_distinct_key) (simp_all add: first_by_distinct)
  then have first: "find (\<lambda>p. name p = name r) ordered = Some r"
    by (simp add: latest first_by_find)
  show "\<forall>s\<in>set signals. name s = name r \<longrightarrow> timestamp_key s \<le> timestamp_key r"
    using find_first_descending [OF s(2) first] s(1) by auto
  have "find (\<lambda>s. timestamp_key s = timestamp_key r \<and> name s = name r) signals
      = find (\<lambda>p. name p = name r) (filter (\<lambda>s. timestamp_key s = timestamp_key r) signals)"
    by (simp add: find_filter)
  also have "\<dots> = find (\<lambda>p. name p = name r) (filter (\<lambda>s. timestamp_key s = timestamp_key r) ordered)"
    by (simp add: s(3))
  also have "\<dots> = find (\<lambda>s. timestamp_key s = timestamp_key r \<and> name s = name r) ordered"
    by (simp add: find_filter)
  also have "\<dots> = Some r"
    using first by (rule find_Some_conj) simp
  finally show "find (\<lambda>s. timestamp_key s = timestamp_key r \<and> name s = name r) signals = Some r" .
qed

lemma parse_row_fields:
  assumes "parse_row f row = Inr s"
  shows "name s = row_get row ''name''" and "timestamp s = row_get row ''timestamp''"
  using assms by (auto simp: parse_row_def bind_result_eq_Inr)

lemma read_signals_fields:
  assumes "read_signals f rows [] = Inr signals"
  shows "map name signals = map (\<lambda>row. row_get row ''name'') rows"
    and "map timestamp signals = map (\<lambda>row. row_get row ''timestamp'') rows"
proof -
  from read_signals_append [of f rows "[]"] assms
  have a: "list_all2 (\<lambda>row s. parse_row f row = Inr s) rows signals" by auto
  then have "list_all2 (\<lambda>row s. name s = row_get row ''name'') rows signals"
    by (rule list_all2_mono) (simp add: parse_row_fields)
  then show "map name signals = map (\<lambda>row. row_get row ''name'') rows"
    by (induction rule: list_all2_induct) simp_all
  from a have "list_all2 (\<lambda>row s. timestamp s = row_get row ''timestamp'') rows signals"
    by (rule list_all2_mono) (simp add: parse_row_fields)
  then show "map timestamp signals = map (\<lambda>row. row_get row ''timestamp'') rows"
    by (induction rule: list_all2_induct) simp_all
qed

lemma latest_signals_returns:
  "(\<exists>latest. latest_signals signals = Inr latest)
     \<longleftrightarrow> length signals < 2 \<or> (\<forall>s\<in>set signals. timestamp s \<noteq> None)"
  using sort_signals_returns [of signals] by (auto simp: latest_signals_Inr)

text \<open>
  C2: the latest signals hold, for every token name of the rows read, exactly one
  signal of that name; it is a row of that name whose timestamp string is greatest in
  the lexicographic order, and among the rows of that name and timestamp it is the first
  in the order of the file.  (\<open>timestamp_key\<close> is the timestamp string of a signal;
  the signals read have the names and timestamps of the rows, in their order.)
  The sort raises when there are two rows or more and a timestamp is \<^verbatim>\<open>None\<close>, and
  returns otherwise.
\<close>

theorem latest_signal_per_token:
  "(latest_signals signals = Inr latest \<longrightarrow>
      distinct (map name latest)
      \<and> name ` set latest = name ` set signals
      \<and> (\<forall>r\<in>set latest. r \<in> set signals
            \<and> (\<forall>s\<in>set signals. name s = name r \<longrightarrow> timestamp_key s \<le> timestamp_key r)
            \<and> find (\<lambda>s. timestamp_key s = timestamp_key r \<and> name s = name r) signals = Some r)
      \<and> (\<forall>n\<in>name ` set signals. length (filter (\<lambda>r. name r = n) latest) = 1))
   \<and> ((\<exists>latest. latest_signals signals = Inr latest)
        \<longleftrightarrow> length signals < 2 \<or> (\<forall>s\<in>set signals. timestamp s \<noteq> None))
   \<and> (\<forall>s\<in>set signals. timestamp s \<noteq> None \<longrightarrow> timestamp s = Some (timestamp_key s))
   \<and> (read_signals f rows [] = Inr signals \<longrightarrow>
        map name signals = map (\<lambda>row. row_get row ''name'') rows
        \<and> map timestamp signals = map (\<lambda>row. row_get row ''timestamp'') rows)"
proof (intro conjI impI ballI)
  assume "read_signals f rows [] = Inr signals"
  then show "map name signals = map (\<lambda>row. row_get row ''name'') rows"
    and "map timestamp signals = map (\<lambda>row. row_get row ''timestamp'') rows"
    by (rule read_signals_fields)+
next
  assume l: "latest_signals signals = Inr latest"
  then obtain ordered where ord: "sort_signals signals = Inr ordered"
    and latest: "latest = first_by name ordered {}"
    by (auto simp: latest_signals_Inr)
  show "distinct (map name latest)" by (simp add: latest first_by_distinct)
  show names: "name ` set latest = name ` set signals"
    by (simp add: latest first_by_keys sort_signals_Inr(1) [OF ord])
  show "length (filter (\<lambda>r. name r = n) latest) = 1" if "n \<in> name ` set signals" for n
    using that by (simp add: latest first_by_once sort_signals_Inr(1) [OF ord])
  fix r
  assume r: "r \<in> set latest"
  show "r \<in> set signals" using l r by (rule latest_signals_entry(1))
  show "find (\<lambda>s. timestamp_key s = timestamp_key r \<and> name s = name r) signals = Some r"
    using l r by (rule latest_signals_entry(3))
  fix s
  assume "s \<in> set signals" "name s = name r"
  then show "timestamp_key s \<le> timestamp_key r"
    using latest_signals_entry(2) [OF l r] by blast
next
  show "(\<exists>latest. latest_signals signals = Inr latest)
        \<longleftrightarrow> length signals < 2 \<or> (\<forall>s\<in>set signals. timestamp s \<noteq> None)"
    by (rule latest_signals_returns)
next
  fix s :: signal
  assume "timestamp s \<noteq> None"
  then show "timestamp s = Some (timestamp_key s)" by (auto simp: timestamp_key_def)
qed

lemma char_less_eval: "c < d \<longleftrightarrow> (of_char c :: nat) < of_char d"
  by (simp add: less_char_def)

lemma char_le_eval: "c \<le> d \<longleftrightarrow> (of_char c :: nat) \<le> of_char d"
  by (simp add: less_eq_char_def)

lemma latest_signals_example:
  "latest_signals
     [example_signal ''2025-01-01T00:05:00'' ''Foo'' (3 / 2),
      example_signal ''2025-01-01T00:00:00'' ''Bar'' 2,
      example_signal ''2025-01-01T00:10:00'' ''Foo'' (1 / 2),
      example_signal ''2025-01-01T00:00:00'' ''Foo'' 3,
      example_signal ''2025-01-01T00:10:00'' ''Foo'' (3 / 2)]
   = Inr [example_signal ''2025-01-01T00:10:00'' ''Foo'' (1 / 2),
          example_signal ''2025-01-01T00:00:00'' ''Bar'' 2]"
  by (simp add: latest_signals_def sort_signals_def timestamp_key_def example_signal_def
      char_less_eval char_le_eval)

theorem latest_signal_per_token_witness:
  "latest_signals
     [example_signal ''2025-01-01T00:05:00'' ''Foo'' (3 / 2),
      example_signal ''2025-01-01T00:00:00'' ''Bar'' 2,
      example_signal ''2025-01-01T00:10:00'' ''Foo'' (1 / 2),
      example_signal ''2025-01-01T00:00:00'' ''Foo'' 3,
      example_signal ''2025-01-01T00:10:00'' ''Foo'' (3 / 2)]
   = Inr [example_signal ''2025-01-01T00:10:00'' ''Foo'' (1 / 2),
          example_signal ''2025-01-01T00:00:00'' ''Bar'' 2]
   \<and> distinct (map name [example_signal ''2025-01-01T00:10:00'' ''Foo'' (1 / 2),
          example_signal ''2025-01-01T00:00:00'' ''Bar'' 2])
   \<and> length (filter (\<lambda>r. name r = Some ''Foo'')
         [example_signal ''2025-01-01T00:10:00'' ''Foo'' (1 / 2),
          example_signal ''2025-01-01T00:00:00'' ''Bar'' 2]) = 1
   \<and> ''2025-01-01T00:00:00'' < ''2025-01-01T00:05:00''
   \<and> ''2025-01-01T00:05:00'' < ''2025-01-01T00:10:00''"
proof -
  let ?signals = "[example_signal ''2025-01-01T00:05:00'' ''Foo'' (3 / 2),
      example_signal ''2025-01-01T00:00:00'' ''Bar'' 2,
      example_signal ''2025-01-01T00:10:00'' ''Foo'' (1 / 2),
      example_signal ''2025-01-01T00:00:00'' ''Foo'' 3,
      example_signal ''2025-01-01T00:10:00'' ''Foo'' (3 / 2)]"
  let ?latest = "[example_signal ''2025-01-01T00:10:00'' ''Foo'' (1 / 2),
          example_signal ''2025-01-01T00:00:00'' ''Bar'' 2]"
  have l: "latest_signals ?signals = Inr ?latest" by (rule latest_signals_example)
  have n: "Some ''Foo'' \<in> name ` set ?signals" by (simp add: example_signal_def)
  from latest_signal_per_token [of ?signals ?latest] l n
  have "distinct (map name ?latest)"
    and "length (filter (\<lambda>r. name r = Some ''Foo'') ?latest) = 1"
    by blast+
  moreover have "''2025-01-01T00:00:00'' < ''2025-01-01T00:05:00''"
    and "''2025-01-01T00:05:00'' < ''2025-01-01T00:10:00''"
    by (simp_all add: char_less_eval)
  ultimately show ?thesis using l by blast
qed

end
